theory Spec2Isabelle
  imports Complex_Main "HOL-Library.Multiset" "HOL-Library.Log_Nat"
begin

section \<open>Values, errors and entities\<close>

text \<open>
  Exceptions are values: a computation that can raise returns \<open>error + 'a\<close>, with
  \<open>Inl\<close> for the raised exception. \<open>ExceptionGroup\<close> is what an
  \<^verbatim>\<open>asyncio.TaskGroup\<close> raises when one of its tasks fails; which failures it
  wraps depends on scheduling and is left out.
\<close>

datatype error =
    TypeError | AttributeError | KeyError | IndexError | ValueError
  | ZeroDivisionError | ValidationError | InvalidOperation | DecimalOverflow
  | LockNotOwnedException | ExceptionGroup | OtherException string

text \<open>
  A \<^verbatim>\<open>datetime.date\<close>. The constructor of the Python class admits only real
  calendar dates, which \<open>valid_date\<close> states. Dates compare field by field.
\<close>

datatype date = Date (year: nat) (month: nat) (day: nat)

definition isleap :: "nat \<Rightarrow> bool" where
  "isleap y = (y mod 4 = 0 \<and> (y mod 100 \<noteq> 0 \<or> y mod 400 = 0))"

definition mdays :: "nat list" where
  "mdays = [0, 31, 28, 31, 30, 31, 30, 31, 31, 30, 31, 30, 31]"

definition monthrange :: "nat \<Rightarrow> nat \<Rightarrow> error + nat" where
  \<comment> \<open>\<^verbatim>\<open>calendar.monthrange\<close>, second component (the weekday is not used)\<close>
  "monthrange y m =
     (if \<not> (1 \<le> m \<and> m \<le> 12) then Inl ValueError
      else Inr (mdays ! m + (if m = 2 \<and> isleap y then 1 else 0)))"

definition valid_date :: "date \<Rightarrow> bool" where
  "valid_date d =
     (1 \<le> year d \<and> year d \<le> 9999 \<and>
      (case monthrange (year d) (month d) of
         Inl _ \<Rightarrow> False
       | Inr n \<Rightarrow> 1 \<le> day d \<and> day d \<le> n))"

definition date_le :: "date \<Rightarrow> date \<Rightarrow> bool" where
  "date_le a b =
     (year a < year b \<or>
      (year a = year b \<and> (month a < month b \<or> (month a = month b \<and> day a \<le> day b))))"

definition get_calendar_month_range_dates :: "date \<Rightarrow> error + date \<times> date" where
  "get_calendar_month_range_dates d =
     (let first_day_of_month = Date (year d) (month d) 1 in
      case monthrange (year d) (month d) of
        Inl e \<Rightarrow> Inl e
      | Inr last_day \<Rightarrow> Inr (first_day_of_month, Date (year d) (month d) last_day))"

text \<open>
  Attribute values and keyword arguments. A finite \<^verbatim>\<open>Decimal\<close> amount is
  represented by its numeric value, a rational: comparisons are exact in Python, and
  \<^verbatim>\<open>==\<close> compares an int and a Decimal numerically. The sums and differences the
  monthly limiter and the repository compute are rounded by the decimal context; they
  are modelled in the section on decimal arithmetic.
\<close>

datatype pyval = PStr string | PInt int | PDecimal rat | PDate date | PNone

fun py_eq :: "pyval \<Rightarrow> pyval \<Rightarrow> bool" where
  "py_eq (PInt a) (PDecimal b) = (of_int a = b)"
| "py_eq (PDecimal a) (PInt b) = (a = of_int b)"
| "py_eq a b = (a = b)"

type_synonym kwargs = "(string \<times> pyval) list"

record UnprocessedTransaction =
  date :: date
  package_size :: string
  carrier :: string

record ProcessedTransaction = UnprocessedTransaction +
  discount_id :: "int option"
  discount :: "rat option"

record ShippingPlan =
  plan_carrier :: string
  plan_package_size :: string
  plan_price :: rat

definition getattr_UnprocessedTransaction ::
  "'a UnprocessedTransaction_scheme \<Rightarrow> string \<Rightarrow> pyval option" where
  "getattr_UnprocessedTransaction t n =
     (if n = ''date'' then Some (PDate (date t))
      else if n = ''package_size'' then Some (PStr (package_size t))
      else if n = ''carrier'' then Some (PStr (carrier t))
      else None)"

definition getattr_ProcessedTransaction :: "ProcessedTransaction \<Rightarrow> string \<Rightarrow> pyval option" where
  "getattr_ProcessedTransaction t n =
     (if n = ''discount_id'' then Some (case discount_id t of None \<Rightarrow> PNone | Some i \<Rightarrow> PInt i)
      else if n = ''discount'' then Some (case discount t of None \<Rightarrow> PNone | Some d \<Rightarrow> PDecimal d)
      else getattr_UnprocessedTransaction t n)"

definition getattr_ShippingPlan :: "ShippingPlan \<Rightarrow> string \<Rightarrow> pyval option" where
  "getattr_ShippingPlan p n =
     (if n = ''carrier'' then Some (PStr (plan_carrier p))
      else if n = ''package_size'' then Some (PStr (plan_package_size p))
      else if n = ''price'' then Some (PDecimal (plan_price p))
      else None)"

section \<open>Decimal arithmetic\<close>

text \<open>
  Python's default decimal context: 28 significant digits, rounding half to even,
  exponents up to 999999, and the \<^verbatim>\<open>Overflow\<close> signal trapped. An arithmetic
  operation computes the exact result and then fits it to the context. On the numeric
  value this is: with \<open>position x\<close> the number of digits of the coefficient plus the
  exponent (so that \<open>10 ^ (position x - 1) \<le> |x| < 10 ^ position x\<close>), the value is
  rounded to a multiple of \<open>10 ^ (position x - 28)\<close>, not finer than the smallest
  exponent \<open>Etiny\<close> of the context; a result of \<open>10 ^ (Emax + 1)\<close> or more raises
  \<^verbatim>\<open>decimal.Overflow\<close>.
\<close>

definition decimal_prec :: int where "decimal_prec = 28"
definition decimal_Emax :: int where "decimal_Emax = 999999"
definition decimal_Etiny :: int where
  \<comment> \<open>\<^verbatim>\<open>Emin - prec + 1\<close> with \<^verbatim>\<open>Emin = -999999\<close>\<close>
  "decimal_Etiny = - 1000026"

definition position :: "rat \<Rightarrow> int" where
  "position x =
     (if 1 \<le> \<bar>x\<bar> then int (floorlog 10 (nat \<lfloor>\<bar>x\<bar>\<rfloor>))
      else 1 - int (floorlog 10 (nat (\<lceil>1 / \<bar>x\<bar>\<rceil> - 1))))"

definition round_half_even :: "rat \<Rightarrow> int" where
  "round_half_even r =
     (let f = \<lfloor>r\<rfloor>; frac = r - of_int f
      in if frac < 1 / 2 then f
         else if 1 / 2 < frac then f + 1
         else if even f then f else f + 1)"

definition decimal_fix :: "rat \<Rightarrow> error + rat" where
  "decimal_fix x =
     (if x = 0 then Inr 0
      else (let exp_min = max (position x - decimal_prec) decimal_Etiny;
                y = of_int (round_half_even (x / 10 powi exp_min)) * 10 powi exp_min
            in if 10 powi (decimal_Emax + 1) \<le> \<bar>y\<bar> then Inl DecimalOverflow else Inr y))"

definition decimal_add :: "rat \<Rightarrow> rat \<Rightarrow> error + rat" where
  "decimal_add a b = decimal_fix (a + b)"

definition decimal_sub :: "rat \<Rightarrow> rat \<Rightarrow> error + rat" where
  "decimal_sub a b = decimal_fix (a - b)"

definition decimal_max :: "rat \<Rightarrow> rat \<Rightarrow> error + rat" where
  \<comment> \<open>\<^verbatim>\<open>a.max(b)\<close>: the larger operand, fitted to the context\<close>
  "decimal_max a b = decimal_fix (max a b)"

fun sum_from :: "rat \<Rightarrow> rat list \<Rightarrow> error + rat" where
  \<comment> \<open>the loop of \<^verbatim>\<open>sum\<close>: the running total plus the next element\<close>
  "sum_from acc [] = Inr acc"
| "sum_from acc (d # ds) =
     (case decimal_add acc d of Inl e \<Rightarrow> Inl e | Inr acc' \<Rightarrow> sum_from acc' ds)"

definition python_sum :: "rat list \<Rightarrow> error + rat" where
  \<comment> \<open>\<^verbatim>\<open>sum(xs)\<close> starts from the integer 0\<close>
  "python_sum xs = sum_from 0 xs"

section \<open>Helpers of core.helper\<close>

text \<open>
  The inner loop shared by \<^verbatim>\<open>attributes_equal\<close> and \<^verbatim>\<open>filter_objects\<close>: the
  search parameters are visited in order, a missing attribute raises, the first
  mismatch ends the loop. The attribute lookup of the object's class is a parameter.
\<close>

fun attrs_match :: "('a \<Rightarrow> string \<Rightarrow> pyval option) \<Rightarrow> 'a \<Rightarrow> kwargs \<Rightarrow> error + bool" where
  "attrs_match ga x [] = Inr True"
| "attrs_match ga x ((search_name, search_value) # kw) =
     (case ga x search_name of
        None \<Rightarrow> Inl AttributeError
      | Some v \<Rightarrow> if \<not> py_eq v search_value then Inr False else attrs_match ga x kw)"

definition attributes_equal :: "('a \<Rightarrow> string \<Rightarrow> pyval option) \<Rightarrow> 'a \<Rightarrow> kwargs \<Rightarrow> error + bool" where
  "attributes_equal ga x kw = (if length kw = 0 then Inl TypeError else attrs_match ga x kw)"

definition del_index :: "nat \<Rightarrow> 'a list \<Rightarrow> error + 'a list" where
  \<comment> \<open>\<^verbatim>\<open>del y[i]\<close>\<close>
  "del_index i y = (if i < length y then Inr (take i y @ drop (Suc i) y) else Inl IndexError)"

text \<open>
  \<^verbatim>\<open>filter_objects\<close> copies the sequence and walks the enumerated original from the
  back, deleting position \<open>i\<close> of the copy at a mismatch. Search values are plain
  values here (no caller in the repository passes a callable).
\<close>

fun filter_objects_loop ::
  "('a \<Rightarrow> string \<Rightarrow> pyval option) \<Rightarrow> (nat \<times> 'a) list \<Rightarrow> kwargs \<Rightarrow> 'a list \<Rightarrow> error + 'a list" where
  "filter_objects_loop ga [] kw y = Inr y"
| "filter_objects_loop ga ((i, element) # rest) kw y =
     (case attrs_match ga element kw of
        Inl e \<Rightarrow> Inl e
      | Inr True \<Rightarrow> filter_objects_loop ga rest kw y
      | Inr False \<Rightarrow>
          (case del_index i y of
             Inl e \<Rightarrow> Inl e
           | Inr y' \<Rightarrow> filter_objects_loop ga rest kw y'))"

definition filter_objects ::
  "('a \<Rightarrow> string \<Rightarrow> pyval option) \<Rightarrow> 'a list \<Rightarrow> kwargs \<Rightarrow> error + 'a list" where
  "filter_objects ga x kw =
     (if length kw = 0 then Inl TypeError
      else filter_objects_loop ga (rev (enumerate 0 x)) kw x)"

section \<open>The in-memory transaction repository\<close>

text \<open>
  \<^verbatim>\<open>TransactionMemoryRepo\<close> keeps the persisted transactions in a list, in the order
  they were saved. An absent or empty attribute filter is not applied.
\<close>

type_synonym TransactionMemoryRepo = "ProcessedTransaction list"

definition filter_transactions_by_date ::
  "ProcessedTransaction list \<Rightarrow> date option \<Rightarrow> date option \<Rightarrow> ProcessedTransaction list" where
  "filter_transactions_by_date transactions start end =
     (let ts1 = (case start of None \<Rightarrow> transactions
                 | Some s \<Rightarrow> filter (\<lambda>t. date_le s (date t)) transactions)
      in case end of None \<Rightarrow> ts1 | Some e \<Rightarrow> filter (\<lambda>t. date_le (date t) e) ts1)"

definition filter_by_attr ::
  "TransactionMemoryRepo \<Rightarrow> kwargs option \<Rightarrow> error + ProcessedTransaction list" where
  \<comment> \<open>\<^verbatim>\<open>if transaction_attr: transactions = filter_objects(transactions, **transaction_attr)\<close>\<close>
  "filter_by_attr transactions transaction_attr =
     (case transaction_attr of
        None \<Rightarrow> Inr transactions
      | Some kw \<Rightarrow> if kw = [] then Inr transactions
                  else filter_objects getattr_ProcessedTransaction transactions kw)"

fun present_discounts :: "ProcessedTransaction list \<Rightarrow> rat list" where
  \<comment> \<open>\<^verbatim>\<open>[t.discount for t in transactions if t.discount is not None]\<close>\<close>
  "present_discounts [] = []"
| "present_discounts (t # ts) =
     (case discount t of None \<Rightarrow> present_discounts ts | Some d \<Rightarrow> d # present_discounts ts)"

definition get_discount_sum ::
  "TransactionMemoryRepo \<Rightarrow> date option \<Rightarrow> date option \<Rightarrow> kwargs option \<Rightarrow> error + rat" where
  "get_discount_sum repo start end transaction_attr =
     (case filter_by_attr repo transaction_attr of
        Inl e \<Rightarrow> Inl e
      | Inr ts \<Rightarrow>
          (let total_elements = present_discounts (filter_transactions_by_date ts start end)
           in if length total_elements = 0 then Inr 0 else python_sum total_elements))"

definition get_transaction_count ::
  "TransactionMemoryRepo \<Rightarrow> date option \<Rightarrow> date option \<Rightarrow> kwargs option \<Rightarrow> error + int" where
  "get_transaction_count repo start end transaction_attr =
     (case filter_by_attr repo transaction_attr of
        Inl e \<Rightarrow> Inl e
      | Inr ts \<Rightarrow> Inr (int (length (filter_transactions_by_date ts start end))))"


section \<open>Rule objects\<close>

text \<open>
  The keyword arguments \<^verbatim>\<open>rule_params\<close> that \<^verbatim>\<open>execute_rule\<close> hands to every
  subrule; \<open>rp_discount\<close> is present only in the copy made for the correction rule.
  (The processor never passes additional \<^verbatim>\<open>rule_params\<close>, so none are modelled.)
\<close>

record rule_params =
  rp_transaction :: UnprocessedTransaction
  rp_price :: rat
  rp_shipping_plans :: "ShippingPlan list"
  rp_transaction_repo :: TransactionMemoryRepo
  rp_discount :: "rat option"

definition kwargs_keys :: "rule_params \<Rightarrow> string list" where
  "kwargs_keys k =
     [''transaction'', ''price'', ''shipping_plans'', ''transaction_repo'']
     @ (case rp_discount k of None \<Rightarrow> [] | Some _ \<Rightarrow> [''discount''])"

text \<open>
  Subrules are duck-typed: any object qualifies. An object is seen through the three
  method names the executor probes; a method has its declared parameter names (without
  \<^verbatim>\<open>self\<close>) and a body that may raise.
\<close>

record 'r py_method =
  arg_names :: "string list"
  run :: "rule_params \<Rightarrow> error + 'r"

record rule_object =
  eligible_method :: "bool py_method option"
  calculate_discount_method :: "rat py_method option"
  correct_method :: "rat option py_method option"

definition no_methods :: rule_object where
  "no_methods = \<lparr>eligible_method = None, calculate_discount_method = None, correct_method = None\<rparr>"

definition missing_keys :: "'r py_method \<Rightarrow> rule_params \<Rightarrow> bool" where
  \<comment> \<open>\<^verbatim>\<open>len(set(kw) - set(kwargs.keys())) > 0\<close>\<close>
  "missing_keys m k = (\<exists>a \<in> set (arg_names m). a \<notin> set (kwargs_keys k))"

definition call_with_expected_args :: "'r py_method \<Rightarrow> rule_params \<Rightarrow> error + 'r" where
  "call_with_expected_args m k = (if missing_keys m k then Inl TypeError else run m k)"

definition has_method_arg :: "'r py_method option \<Rightarrow> string \<Rightarrow> error + bool" where
  \<comment> \<open>\<^verbatim>\<open>has_arg(getattr(obj, method), arg)\<close>\<close>
  "has_method_arg m arg =
     (case m of None \<Rightarrow> Inl AttributeError | Some f \<Rightarrow> Inr (arg \<in> set (arg_names f)))"

section \<open>Reference rule variants\<close>

text \<open>
  Each class is its constructor (with the argument validation of
  \<^verbatim>\<open>validate_call\<close> where the source declares it) and its method, which takes
  the configured attributes of \<^verbatim>\<open>self\<close> first. The limiter's \<^verbatim>\<open>size\<close> and
  \<^verbatim>\<open>discount\<close> are written \<open>limit\<close> and \<open>d\<close>, the interval
  \<^verbatim>\<open>nth\<close> is \<open>every_nth\<close>.
\<close>

definition RuleTransactionAttributes_eligible :: "kwargs \<Rightarrow> rule_params \<Rightarrow> error + bool" where
  "RuleTransactionAttributes_eligible transaction k =
     attributes_equal getattr_UnprocessedTransaction (rp_transaction k) transaction"

definition RuleTransactionAttributes :: "kwargs \<Rightarrow> rule_object" where
  "RuleTransactionAttributes transaction =
     no_methods\<lparr>eligible_method :=
       Some \<lparr>arg_names = [''transaction''],
             run = RuleTransactionAttributes_eligible transaction\<rparr>\<rparr>"

definition RuleMaxNTimesInCalendarMonth_eligible :: "int \<Rightarrow> int \<Rightarrow> rule_params \<Rightarrow> error + bool" where
  "RuleMaxNTimesInCalendarMonth_eligible did n k =
     (case get_calendar_month_range_dates (date (rp_transaction k)) of
        Inl e \<Rightarrow> Inl e
      | Inr (start, end) \<Rightarrow>
          (case get_transaction_count (rp_transaction_repo k) (Some start) (Some end)
                  (Some [(''discount_id'', PInt did)]) of
             Inl e \<Rightarrow> Inl e
           | Inr cnt \<Rightarrow> Inr (cnt < n)))"

definition RuleMaxNTimesInCalendarMonth :: "int \<Rightarrow> int \<Rightarrow> error + rule_object" where
  "RuleMaxNTimesInCalendarMonth did n =
     (if \<not> 1 \<le> n then Inl ValidationError
      else Inr (no_methods\<lparr>eligible_method :=
             Some \<lparr>arg_names = [''transaction'', ''transaction_repo''],
                   run = RuleMaxNTimesInCalendarMonth_eligible did n\<rparr>\<rparr>))"




definition RuleDiscountFullPrice_calculate_discount :: "rule_params \<Rightarrow> error + rat" where
  "RuleDiscountFullPrice_calculate_discount k = Inr (rp_price k)"

definition RuleDiscountFullPrice :: rule_object where
  "RuleDiscountFullPrice =
     no_methods\<lparr>calculate_discount_method :=
       Some \<lparr>arg_names = [''price''], run = RuleDiscountFullPrice_calculate_discount\<rparr>\<rparr>"

definition MatchPriceToLowestPriceAmongShippingPlans_calculate_discount ::
  "kwargs option \<Rightarrow> rule_params \<Rightarrow> error + rat" where
  "MatchPriceToLowestPriceAmongShippingPlans_calculate_discount attributes k =
     (case (case attributes of
              None \<Rightarrow> Inr (rp_shipping_plans k)
            | Some a \<Rightarrow> if a = [] then Inr (rp_shipping_plans k)
                        else filter_objects getattr_ShippingPlan (rp_shipping_plans k) a) of
        Inl e \<Rightarrow> Inl e
      | Inr plans \<Rightarrow>
          (case map plan_price plans of
             [] \<Rightarrow> Inl ValueError
           | p # ps \<Rightarrow> (let lowest_price = fold min ps p in Inr (rp_price k - lowest_price))))"

definition MatchPriceToLowestPriceAmongShippingPlans :: "kwargs option \<Rightarrow> rule_object" where
  "MatchPriceToLowestPriceAmongShippingPlans attributes =
     no_methods\<lparr>calculate_discount_method :=
       Some \<lparr>arg_names = [''price'', ''shipping_plans''],
             run = MatchPriceToLowestPriceAmongShippingPlans_calculate_discount attributes\<rparr>\<rparr>"

definition accumulated_discounts :: "TransactionMemoryRepo \<Rightarrow> date \<Rightarrow> error + rat" where
  \<comment> \<open>lines 64 to 67 of \<^verbatim>\<open>correct\<close>: the discounts persisted in the month of the date\<close>
  "accumulated_discounts transaction_repo d =
     (case get_calendar_month_range_dates d of
        Inl e \<Rightarrow> Inl e
      | Inr (start, end) \<Rightarrow> get_discount_sum transaction_repo (Some start) (Some end) None)"

definition BasicMonthlyDiscountSizeLimiter_correct :: "rat \<Rightarrow> rule_params \<Rightarrow> error + rat option" where
  "BasicMonthlyDiscountSizeLimiter_correct limit k =
     (case rp_discount k of
        None \<Rightarrow> Inl TypeError
      | Some d \<Rightarrow>
          (case accumulated_discounts (rp_transaction_repo k) (date (rp_transaction k)) of
             Inl e \<Rightarrow> Inl e
           | Inr accumulated \<Rightarrow>
               (case decimal_add d accumulated of
                  Inl e \<Rightarrow> Inl e
                | Inr new_total \<Rightarrow>
                    if new_total \<le> limit then Inr (Some d)
                    else (case decimal_sub limit accumulated of
                            Inl e \<Rightarrow> Inl e
                          | Inr corrected_value \<Rightarrow>
                              (case decimal_max corrected_value 0 of
                                 Inl e \<Rightarrow> Inl e
                               | Inr m \<Rightarrow> Inr (Some m))))))"

definition BasicMonthlyDiscountSizeLimiter :: "rat \<Rightarrow> error + rule_object" where
  "BasicMonthlyDiscountSizeLimiter limit =
     (if \<not> 0 < limit then Inl ValidationError
      else Inr (no_methods\<lparr>correct_method :=
             Some \<lparr>arg_names = [''discount'', ''transaction'', ''transaction_repo''],
                   run = BasicMonthlyDiscountSizeLimiter_correct limit\<rparr>\<rparr>))"

section \<open>The discount rule executor\<close>

record DiscountRuleExecutor =
  exec_discount_id :: int
  exec_eligibility_rules :: "rule_object list option"
  exec_size_rule :: rule_object
  exec_size_correction_rule :: "rule_object option"

text \<open>
  The constructor. \<^verbatim>\<open>if eligibility_rules:\<close> is false for \<^verbatim>\<open>None\<close> and for
  an empty sequence; \<^verbatim>\<open>has_method\<close> holds when the attribute exists and is
  callable.
\<close>

definition DiscountRuleExecutor_init ::
  "int \<Rightarrow> rule_object \<Rightarrow> rule_object list option \<Rightarrow> rule_object option
     \<Rightarrow> error + DiscountRuleExecutor" where
  "DiscountRuleExecutor_init did size_rule eligibility_rules size_correction_rule =
     (if (case eligibility_rules of
            None \<Rightarrow> False
          | Some rs \<Rightarrow> rs \<noteq> [] \<and> (\<exists>r \<in> set rs. eligible_method r = None))
      then Inl ValueError
      else if calculate_discount_method size_rule = None then Inl ValueError
      else if (case size_correction_rule of
                 None \<Rightarrow> False
               | Some c \<Rightarrow> (case correct_method c of
                             None \<Rightarrow> True
                           | Some m \<Rightarrow> ''discount'' \<notin> set (arg_names m)))
      then Inl ValueError
      else Inr \<lparr>exec_discount_id = did,
                exec_eligibility_rules = eligibility_rules,
                exec_size_rule = size_rule,
                exec_size_correction_rule = size_correction_rule\<rparr>)"

text \<open>
  Eligibility tasks. Creating the tasks looks the method up and binds its arguments
  at once, rule by rule; the bodies run as tasks, and a task is represented by the
  outcome it completes with. \<^verbatim>\<open>asyncio.as_completed\<close> yields the tasks in the order
  they finish, which the scheduler decides: it is the parameter \<open>as_completed\<close>, a
  reordering of the task list. The loop stops at the first task that raised or
  returned false; the other tasks are cancelled.
\<close>

fun create_eligibility_tasks :: "rule_object list \<Rightarrow> rule_params \<Rightarrow> error + (error + bool) list" where
  "create_eligibility_tasks [] k = Inr []"
| "create_eligibility_tasks (rule # rules) k =
     (case eligible_method rule of
        None \<Rightarrow> Inl AttributeError
      | Some m \<Rightarrow>
          if missing_keys m k then Inl TypeError
          else (case create_eligibility_tasks rules k of
                  Inl e \<Rightarrow> Inl e
                | Inr tasks \<Rightarrow> Inr (run m k # tasks)))"

fun await_eligibility :: "(error + bool) list \<Rightarrow> error + bool" where
  "await_eligibility [] = Inr True"
| "await_eligibility (task # tasks) =
     (case task of
        Inl e \<Rightarrow> Inl e
      | Inr is_eligible \<Rightarrow> if \<not> is_eligible then Inr False else await_eligibility tasks)"

definition is_eligible ::
  "((error + bool) list \<Rightarrow> (error + bool) list) \<Rightarrow> rule_object list option \<Rightarrow> rule_params
     \<Rightarrow> error + bool" where
  "is_eligible as_completed eligibility_rules k =
     (case eligibility_rules of
        None \<Rightarrow> Inr True
      | Some rules \<Rightarrow>
          (case create_eligibility_tasks rules k of
             Inl e \<Rightarrow> Inl e
           | Inr eligibility_tasks \<Rightarrow> await_eligibility (as_completed eligibility_tasks)))"

text \<open>
  \<^verbatim>\<open>execute_rule\<close> returns its result together with what it did on the way: the
  calls of the size rule and of the correction rule (with the discount passed), and
  the errors it logged.
\<close>

datatype rule_event = SizeRuleCalled | CorrectionRuleCalled rat | ErrorLogged

definition correct_size ::
  "rule_object \<Rightarrow> rule_params \<Rightarrow> rat \<Rightarrow> rule_event list \<times> (error + rat option)" where
  \<comment> \<open>lines 176 to 193 of \<^verbatim>\<open>execute_rule\<close>\<close>
  "correct_size rule k sz =
     (let rule_params_with_discount = k\<lparr>rp_discount := Some sz\<rparr> in
      case correct_method rule of
        None \<Rightarrow> ([SizeRuleCalled], Inl AttributeError)
      | Some m \<Rightarrow>
          if missing_keys m rule_params_with_discount then ([SizeRuleCalled], Inl TypeError)
          else (case run m rule_params_with_discount of
                  Inl e \<Rightarrow> ([SizeRuleCalled, CorrectionRuleCalled sz], Inl e)
                | Inr corrected_size \<Rightarrow>
                    (case corrected_size of
                       None \<Rightarrow> ([SizeRuleCalled, CorrectionRuleCalled sz], Inr None)
                     | Some c \<Rightarrow>
                         if c < 0
                         then ([SizeRuleCalled, CorrectionRuleCalled sz, ErrorLogged], Inr None)
                         else ([SizeRuleCalled, CorrectionRuleCalled sz],
                               Inr (if c = 0 then None else Some c)))))"

definition initial_rule_params ::
  "rat \<Rightarrow> ShippingPlan list \<Rightarrow> UnprocessedTransaction \<Rightarrow> TransactionMemoryRepo \<Rightarrow> rule_params" where
  \<comment> \<open>lines 141 to 149 of \<^verbatim>\<open>execute_rule\<close>\<close>
  "initial_rule_params price shipping_plans transaction transaction_repo =
     \<lparr>rp_transaction = transaction, rp_price = price, rp_shipping_plans = shipping_plans,
      rp_transaction_repo = transaction_repo, rp_discount = None\<rparr>"

definition execute_rule ::
  "((error + bool) list \<Rightarrow> (error + bool) list) \<Rightarrow> DiscountRuleExecutor \<Rightarrow> rat
     \<Rightarrow> ShippingPlan list \<Rightarrow> UnprocessedTransaction \<Rightarrow> TransactionMemoryRepo
     \<Rightarrow> rule_event list \<times> (error + rat option)" where
  "execute_rule as_completed self price shipping_plans transaction transaction_repo =
     (let k = initial_rule_params price shipping_plans transaction transaction_repo in
      case is_eligible as_completed (exec_eligibility_rules self) k of
        Inl e \<Rightarrow> ([], Inl e)
      | Inr False \<Rightarrow> ([], Inr None)
      | Inr True \<Rightarrow>
          (case calculate_discount_method (exec_size_rule self) of
             None \<Rightarrow> ([], Inl AttributeError)
           | Some m \<Rightarrow>
               if missing_keys m k then ([], Inl TypeError)
               else (case run m k of
                       Inl e \<Rightarrow> ([SizeRuleCalled], Inl e)
                     | Inr sz \<Rightarrow>
                         if sz < 0 then ([SizeRuleCalled, ErrorLogged], Inr None)
                         else (case exec_size_correction_rule self of
                                 None \<Rightarrow> ([SizeRuleCalled], Inr (if sz = 0 then None else Some sz))
                               | Some rule \<Rightarrow> correct_size rule k sz))))"

section \<open>Selecting the discount\<close>

text \<open>
  \<^verbatim>\<open>sorted(discounts, key=extract_size, reverse=True)\<close> is a stable sort in
  descending key order: Python reverses the list, sorts it stably in ascending order
  and reverses the result, so that elements with equal keys keep their order.
  \<^verbatim>\<open>[0]\<close> of an empty list raises.
\<close>

definition sorted_reverse :: "('a \<Rightarrow> rat) \<Rightarrow> 'a list \<Rightarrow> 'a list" where
  "sorted_reverse extract_size discounts = rev (sort_key extract_size (rev discounts))"

definition get_largest_discount :: "'a list \<Rightarrow> ('a \<Rightarrow> rat) \<Rightarrow> error + 'a" where
  "get_largest_discount discounts extract_size =
     (case sorted_reverse extract_size discounts of [] \<Rightarrow> Inl IndexError | x # _ \<Rightarrow> Inr x)"

record ApplicableDiscount =
  ad_discount_id :: int
  ad_discount :: rat

text \<open>
  \<^verbatim>\<open>_calculate_discount\<close>: one task per executor, created in the order of the rule
  list; the task group raises when a task failed. The results are then read in the
  order the tasks were created.
\<close>

fun applicable_discounts :: "(int \<times> (error + rat option)) list \<Rightarrow> ApplicableDiscount list" where
  "applicable_discounts [] = []"
| "applicable_discounts ((did, Inr (Some d)) # tasks) =
     \<lparr>ad_discount_id = did, ad_discount = d\<rparr> # applicable_discounts tasks"
| "applicable_discounts (_ # tasks) = applicable_discounts tasks"

definition exec_discount_tasks ::
  "((error + bool) list \<Rightarrow> (error + bool) list) \<Rightarrow> DiscountRuleExecutor list \<Rightarrow> rat
     \<Rightarrow> ShippingPlan list \<Rightarrow> UnprocessedTransaction \<Rightarrow> TransactionMemoryRepo
     \<Rightarrow> (int \<times> (error + rat option)) list" where
  "exec_discount_tasks as_completed rules price shipping_plans transaction transaction_repo =
     map (\<lambda>rule. (exec_discount_id rule,
                   snd (execute_rule as_completed rule price shipping_plans transaction
                          transaction_repo))) rules"

definition calculate_discount ::
  "((error + bool) list \<Rightarrow> (error + bool) list) \<Rightarrow> UnprocessedTransaction \<Rightarrow> ShippingPlan list
     \<Rightarrow> rat \<Rightarrow> DiscountRuleExecutor list \<Rightarrow> TransactionMemoryRepo
     \<Rightarrow> error + ApplicableDiscount option" where
  "calculate_discount as_completed transaction shipping_plans price rules transaction_repo =
     (let tasks = exec_discount_tasks as_completed rules price shipping_plans transaction
                    transaction_repo in
      if \<exists>t \<in> set tasks. isl (snd t) then Inl ExceptionGroup
      else (let applicable = applicable_discounts tasks in
            if length applicable = 0 then Inr None
            else (case get_largest_discount applicable ad_discount of
                    Inl e \<Rightarrow> Inl e
                  | Inr largest \<Rightarrow> Inr (Some largest))))"

section \<open>Building the executors\<close>

record Subrule =
  name :: string
  params :: kwargs

record DiscountRule =
  rule_discount_id :: int
  size_rule :: Subrule
  eligibility_rules :: "Subrule list option"
  size_correction_rule :: "Subrule option"

text \<open>
  A registry maps a rule name to the class registered under it, that is, to its
  constructor. \<^verbatim>\<open>registry[name](**params)\<close> raises \<^verbatim>\<open>KeyError\<close> for an unknown
  name and whatever the constructor raises.
\<close>

type_synonym registry = "string \<Rightarrow> (kwargs \<Rightarrow> error + rule_object) option"

definition instantiate :: "registry \<Rightarrow> Subrule \<Rightarrow> error + rule_object" where
  "instantiate reg rule = (case reg (name rule) of None \<Rightarrow> Inl KeyError | Some cls \<Rightarrow> cls (params rule))"

fun instantiate_all :: "registry \<Rightarrow> Subrule list \<Rightarrow> error + rule_object list" where
  "instantiate_all reg [] = Inr []"
| "instantiate_all reg (rule # rules) =
     (case instantiate reg rule of
        Inl e \<Rightarrow> Inl e
      | Inr obj \<Rightarrow> (case instantiate_all reg rules of
                      Inl e \<Rightarrow> Inl e
                    | Inr objs \<Rightarrow> Inr (obj # objs)))"

text \<open>
  The loop of \<^verbatim>\<open>_get_rules\<close>. The variables \<^verbatim>\<open>init_eligibility_rules\<close> and
  \<^verbatim>\<open>init_correction_rule\<close> are assigned \<^verbatim>\<open>None\<close> before the loop and only
  reassigned inside it when the definition declares the variant, so they are loop
  state, passed from one iteration to the next.
\<close>

fun get_rules_loop ::
  "registry \<Rightarrow> registry \<Rightarrow> registry \<Rightarrow> DiscountRule list \<Rightarrow> rule_object list option
     \<Rightarrow> rule_object option \<Rightarrow> DiscountRuleExecutor list \<Rightarrow> error + DiscountRuleExecutor list" where
  "get_rules_loop eligibility_reg size_reg correction_reg [] init_eligibility_rules
     init_correction_rule rules = Inr rules"
| "get_rules_loop eligibility_reg size_reg correction_reg (discount_rule # discount_rules)
     init_eligibility_rules init_correction_rule rules =
     (case (case eligibility_rules discount_rule of
              None \<Rightarrow> Inr init_eligibility_rules
            | Some subrules \<Rightarrow>
                (case instantiate_all eligibility_reg subrules of
                   Inl e \<Rightarrow> Inl e
                 | Inr objs \<Rightarrow> Inr (Some objs))) of
        Inl e \<Rightarrow> Inl e
      | Inr init_eligibility_rules' \<Rightarrow>
          (case (case size_correction_rule discount_rule of
                   None \<Rightarrow> Inr init_correction_rule
                 | Some subrule \<Rightarrow>
                     (case instantiate correction_reg subrule of
                        Inl e \<Rightarrow> Inl e
                      | Inr obj \<Rightarrow> Inr (Some obj))) of
             Inl e \<Rightarrow> Inl e
           | Inr init_correction_rule' \<Rightarrow>
               (case instantiate size_reg (size_rule discount_rule) of
                  Inl e \<Rightarrow> Inl e
                | Inr size_obj \<Rightarrow>
                    (case DiscountRuleExecutor_init (rule_discount_id discount_rule) size_obj
                            init_eligibility_rules' init_correction_rule' of
                       Inl e \<Rightarrow> Inl e
                     | Inr executor \<Rightarrow>
                         get_rules_loop eligibility_reg size_reg correction_reg discount_rules
                           init_eligibility_rules' init_correction_rule' (rules @ [executor])))))"

definition get_rules ::
  "registry \<Rightarrow> registry \<Rightarrow> registry \<Rightarrow> DiscountRule list \<Rightarrow> error + DiscountRuleExecutor list" where
  "get_rules eligibility_reg size_reg correction_reg discount_rules =
     get_rules_loop eligibility_reg size_reg correction_reg discount_rules None None []"

text \<open>
  The registry entries of the two classes whose constructors take their keywords as
  they are (the other registered classes validate their keywords through pydantic).
\<close>

definition eligibility_registry :: registry where
  "eligibility_registry =
     (\<lambda>n. if n = ''rule_transaction_attributes''
          then Some (\<lambda>kw. Inr (RuleTransactionAttributes kw)) else None)"

definition size_registry :: registry where
  "size_registry =
     (\<lambda>n. if n = ''rule_discount_size_full_price''
          then Some (\<lambda>kw. if kw = [] then Inr RuleDiscountFullPrice else Inl TypeError)
          else None)"

section \<open>Processing a transaction\<close>

text \<open>
  The lock, the unit of work and the repository's \<^verbatim>\<open>save\<close> are collaborators
  behind abstract interfaces. Each of their calls either returns (\<open>None\<close>) or raises
  (\<open>Some e\<close>); the processor's run is the list of calls it made, in order, and what it
  returned or raised.
\<close>

record collaborators =
  acquire_outcome :: "error option"
  begin_outcome :: "error option"
  save_outcome :: "error option"
  reacquire_outcome :: "error option"
  commit_outcome :: "error option"
  abort_outcome :: "error option"
  release_outcome :: "error option"

datatype processor_event =
    CallAcquire | CallBegin | CallSave ProcessedTransaction | CallReacquire
  | CallCommit | CallAbort | CallRelease | WarningLogged

record TransactionResponseDTO =
  reduced_price :: rat
  applied_discount :: "rat option"

definition get_response :: "rat \<Rightarrow> rat option \<Rightarrow> TransactionResponseDTO" where
  "get_response price disc =
     (case disc of
        Some d \<Rightarrow> \<lparr>reduced_price = price - d, applied_discount = Some d\<rparr>
      | None \<Rightarrow> \<lparr>reduced_price = price, applied_discount = None\<rparr>)"

definition ProcessedTransaction_init ::
  "UnprocessedTransaction \<Rightarrow> int option \<Rightarrow> rat option \<Rightarrow> error + ProcessedTransaction" where
  \<comment> \<open>the fields of the request, with \<^verbatim>\<open>Field(ge=0)\<close> on the discount\<close>
  "ProcessedTransaction_init t did disc =
     (if (case disc of None \<Rightarrow> False | Some d \<Rightarrow> \<not> 0 \<le> d) then Inl ValidationError
      else Inr \<lparr>date = date t, package_size = package_size t, carrier = carrier t,
                discount_id = did, discount = disc\<rparr>)"

definition uow_body ::
  "collaborators \<Rightarrow> ((error + bool) list \<Rightarrow> (error + bool) list) \<Rightarrow> UnprocessedTransaction
     \<Rightarrow> ShippingPlan list \<Rightarrow> rat \<Rightarrow> DiscountRuleExecutor list \<Rightarrow> TransactionMemoryRepo
     \<Rightarrow> processor_event list \<times> (error + rat option)" where
  \<comment> \<open>the body of \<^verbatim>\<open>async with self._uow\<close>; its value is \<^verbatim>\<open>applied_discount\<close>\<close>
  "uow_body c as_completed transaction shipping_plans price rules repo =
     (case calculate_discount as_completed transaction shipping_plans price rules repo of
        Inl e \<Rightarrow> ([], Inl e)
      | Inr discount_size_and_id \<Rightarrow>
          (let (applied_discount, applied_discount_id) =
                 (case discount_size_and_id of
                    None \<Rightarrow> (None, None)
                  | Some a \<Rightarrow> (Some (ad_discount a), Some (ad_discount_id a)))
           in case ProcessedTransaction_init transaction applied_discount_id applied_discount of
                Inl e \<Rightarrow> ([], Inl e)
              | Inr processed_transaction \<Rightarrow>
                  (case save_outcome c of
                     Some e \<Rightarrow> ([CallSave processed_transaction], Inl e)
                   | None \<Rightarrow>
                       (case reacquire_outcome c of
                          Some e \<Rightarrow> ([CallSave processed_transaction, CallReacquire], Inl e)
                        | None \<Rightarrow> ([CallSave processed_transaction, CallReacquire],
                                   Inr applied_discount)))))"

definition with_uow ::
  "collaborators \<Rightarrow> processor_event list \<times> (error + 'a) \<Rightarrow> processor_event list \<times> (error + 'a)" where
  \<comment> \<open>\<^verbatim>\<open>__aenter__\<close> begins; \<^verbatim>\<open>__aexit__\<close> aborts when the body raised and commits otherwise\<close>
  "with_uow c body =
     (case begin_outcome c of
        Some e \<Rightarrow> ([CallBegin], Inl e)
      | None \<Rightarrow>
          (case snd body of
             Inl e \<Rightarrow>
               (CallBegin # fst body @ [CallAbort],
                case abort_outcome c of Some e' \<Rightarrow> Inl e' | None \<Rightarrow> Inl e)
           | Inr v \<Rightarrow>
               (CallBegin # fst body @ [CallCommit],
                case commit_outcome c of Some e' \<Rightarrow> Inl e' | None \<Rightarrow> Inr v)))"

text \<open>
  \<^verbatim>\<open>process_transaction\<close> from the acquisition of the lock on. The shipping plans,
  the validated transaction, the price and the executors are computed before the lock
  is touched and are arguments here.
\<close>

definition process_transaction ::
  "collaborators \<Rightarrow> ((error + bool) list \<Rightarrow> (error + bool) list) \<Rightarrow> UnprocessedTransaction
     \<Rightarrow> ShippingPlan list \<Rightarrow> rat \<Rightarrow> DiscountRuleExecutor list \<Rightarrow> TransactionMemoryRepo
     \<Rightarrow> processor_event list \<times> (error + TransactionResponseDTO)" where
  "process_transaction c as_completed transaction shipping_plans price rules repo =
     (case acquire_outcome c of
        Some e \<Rightarrow> ([CallAcquire], Inl e)
      | None \<Rightarrow>
          (let tried = with_uow c (uow_body c as_completed transaction shipping_plans price
                                     rules repo)
           in case snd tried of
                Inl e \<Rightarrow>
                  (CallAcquire # fst tried @ [CallRelease],
                   case release_outcome c of
                     None \<Rightarrow> Inl e
                   | Some r \<Rightarrow> if r = LockNotOwnedException then Inl e else Inl r)
              | Inr applied \<Rightarrow>
                  (case release_outcome c of
                     None \<Rightarrow> (CallAcquire # fst tried @ [CallRelease],
                                Inr (get_response price applied))
                   | Some r \<Rightarrow>
                       if r = LockNotOwnedException
                       then (CallAcquire # fst tried @ [CallRelease, WarningLogged],
                             Inr (get_response price applied))
                       else (CallAcquire # fst tried @ [CallRelease], Inl r))))"

section \<open>Decimal places of a price\<close>

text \<open>
  For the digit checks a \<^verbatim>\<open>Decimal\<close> is what \<^verbatim>\<open>as_tuple()\<close> shows: a sign, the
  coefficient's digits (most significant first, no leading zeros) and an exponent,
  which is not an integer for NaN and infinities.
\<close>

datatype dec_exp = Exp int | ExpNaN | ExpInf

record Decimal =
  dec_sign :: nat
  dec_digits :: "nat list"
  dec_exponent :: dec_exp

definition last_digits :: "nat \<Rightarrow> 'a list \<Rightarrow> 'a list" where
  \<comment> \<open>the slice \<^verbatim>\<open>digits[-n:]\<close>; \<^verbatim>\<open>digits[-0:]\<close> is the whole tuple\<close>
  "last_digits n ds = (if n = 0 then ds else drop (length ds - n) ds)"

definition is_zero :: "Decimal \<Rightarrow> bool" where
  "is_zero v = (\<forall>d \<in> set (dec_digits v). d = 0)"

text \<open>
  \<^verbatim>\<open>value.quantize(Decimal("1." + "0"*places), rounding=ROUND_DOWN)\<close> on a finite
  value: the result has exponent \<open>- places\<close>; digits are appended as zeros or cut off
  without rounding; a result longer than the context precision of 28 digits signals
  \<^verbatim>\<open>InvalidOperation\<close>.
\<close>

definition quantize_round_down :: "Decimal \<Rightarrow> nat \<Rightarrow> error + Decimal" where
  "quantize_round_down v places =
     (case dec_exponent v of
        Exp e \<Rightarrow>
          (let target = - int places in
           if is_zero v then Inr (v\<lparr>dec_digits := [0], dec_exponent := Exp target\<rparr>)
           else if int (length (dec_digits v)) + e - target > 28 then Inl InvalidOperation
           else if target \<le> e
             then Inr (v\<lparr>dec_digits := dec_digits v @ replicate (nat (e - target)) 0,
                        dec_exponent := Exp target\<rparr>)
           else (let coeff = take (nat (int (length (dec_digits v)) + e - target)) (dec_digits v)
                 in Inr (v\<lparr>dec_digits := (if coeff = [] then [0] else coeff),
                           dec_exponent := Exp target\<rparr>)))
      | _ \<Rightarrow> Inl InvalidOperation)"

definition make_decimal_places_formatter :: "nat \<Rightarrow> Decimal option \<Rightarrow> error + Decimal option" where
  "make_decimal_places_formatter dec_places val =
     (case val of
        None \<Rightarrow> Inr None
      | Some v \<Rightarrow>
          (case dec_exponent v of
             Exp e \<Rightarrow>
               (let got_dec_places = nat \<bar>e\<bar>;
                    redundant_dec_place = last_digits dec_places (dec_digits v)
                in if got_dec_places > dec_places \<and> \<not> (\<forall>dp \<in> set redundant_dec_place. dp = 0)
                   then Inl ValueError
                   else (case quantize_round_down v dec_places of
                           Inl err \<Rightarrow> Inl err
                         | Inr q \<Rightarrow> Inr (Some q)))
           | _ \<Rightarrow> Inl ValueError))"

definition CURRENCY_DECIMAL_PLACES :: nat where
  "CURRENCY_DECIMAL_PLACES = 2"

definition format_currency_decimal_places :: "Decimal option \<Rightarrow> error + Decimal option" where
  "format_currency_decimal_places x = make_decimal_places_formatter CURRENCY_DECIMAL_PLACES x"

text \<open>
  The price field of \<^verbatim>\<open>ShippingPlan\<close> is \<^verbatim>\<open>Annotated[Decimal, Field(ge=0)]\<close>:
  a finite, non-negative value is stored as given. The class body also evaluates
  \<^verbatim>\<open>field_validator("price", mode="after")(format_currency_decimal_places)\<close>, but as
  a bare expression: the validator it builds is bound to no attribute of the class,
  and pydantic collects validators from the class attributes, so the formatter is never
  run on the price. The repository's API test agrees: the plan priced \<^verbatim>\<open>Decimal("3")\<close>
  is answered with the reduced price \<^verbatim>\<open>"3"\<close>, not \<^verbatim>\<open>"3.00"\<close>.
\<close>

definition ShippingPlan_price :: "Decimal \<Rightarrow> error + Decimal" where
  "ShippingPlan_price v =
     (case dec_exponent v of
        Exp e \<Rightarrow> if dec_sign v = 0 \<or> is_zero v then Inr v else Inl ValidationError
      | _ \<Rightarrow> Inl ValidationError)"

section \<open>Quantities the properties speak of\<close>

text \<open>
  The discounts persisted in the calendar month of a date, and the number of
  persisted transactions that match an attribute filter, written down from their
  description and not from the repository's code.
\<close>

definition same_month :: "date \<Rightarrow> date \<Rightarrow> bool" where
  "same_month d t = (year t = year d \<and> month t = month d)"

definition accumulated_this_month :: "TransactionMemoryRepo \<Rightarrow> date \<Rightarrow> rat" where
  "accumulated_this_month repo d =
     sum_list (present_discounts (filter (\<lambda>t. same_month d (date t)) repo))"





text \<open>
  Amounts in whole cents, and the values a decimal operation can produce: a
  coefficient of at most 28 digits with an exponent of the context.
\<close>

definition cents :: "rat \<Rightarrow> bool" where
  "cents x \<longleftrightarrow> x * 100 \<in> \<int>"

definition representable :: "rat \<Rightarrow> bool" where
  "representable y \<longleftrightarrow>
     (\<exists>n e. y = of_int n * 10 powi e \<and> \<bar>n\<bar> < 10 ^ 28 \<and> decimal_Etiny \<le> e)
     \<and> \<bar>y\<bar> < 10 powi (decimal_Emax + 1)"

section \<open>Example data\<close>

definition tx_A_S :: UnprocessedTransaction where
  "tx_A_S = \<lparr>date = Date 2021 2 1, package_size = ''S'', carrier = ''A''\<rparr>"

definition full_price_executor :: "int \<Rightarrow> DiscountRuleExecutor" where
  "full_price_executor did =
     \<lparr>exec_discount_id = did, exec_eligibility_rules = None,
      exec_size_rule = RuleDiscountFullPrice, exec_size_correction_rule = None\<rparr>"

definition only_M_executor :: DiscountRuleExecutor where
  "only_M_executor =
     \<lparr>exec_discount_id = 1,
      exec_eligibility_rules = Some [RuleTransactionAttributes [(''package_size'', PStr ''M'')]],
      exec_size_rule = RuleDiscountFullPrice, exec_size_correction_rule = None\<rparr>"

definition raising_then_false_executor :: DiscountRuleExecutor where
  "raising_then_false_executor =
     \<lparr>exec_discount_id = 1,
      exec_eligibility_rules =
        Some [RuleTransactionAttributes [],
              RuleTransactionAttributes [(''package_size'', PStr ''M'')]],
      exec_size_rule = RuleDiscountFullPrice, exec_size_correction_rule = None\<rparr>"

definition limiter_25 :: rule_object where
  "limiter_25 =
     no_methods\<lparr>correct_method :=
       Some \<lparr>arg_names = [''discount'', ''transaction'', ''transaction_repo''],
             run = BasicMonthlyDiscountSizeLimiter_correct 25\<rparr>\<rparr>"

definition limited_executor :: DiscountRuleExecutor where
  "limited_executor =
     \<lparr>exec_discount_id = 1, exec_eligibility_rules = None,
      exec_size_rule = RuleDiscountFullPrice, exec_size_correction_rule = Some limiter_25\<rparr>"

text \<open>
  A correction rule of another kind, as the duck-typed executor admits: it raises
  every discount to at least 1.
\<close>

definition minimum_discount_rule :: rule_object where
  "minimum_discount_rule =
     no_methods\<lparr>correct_method :=
       Some \<lparr>arg_names = [''discount''],
             run = (\<lambda>k. case rp_discount k of
                            None \<Rightarrow> Inl TypeError
                          | Some d \<Rightarrow> Inr (Some (max d 1)))\<rparr>\<rparr>"

definition minimum_discount_executor :: DiscountRuleExecutor where
  "minimum_discount_executor =
     \<lparr>exec_discount_id = 1, exec_eligibility_rules = None,
      exec_size_rule = RuleDiscountFullPrice,
      exec_size_correction_rule = Some minimum_discount_rule\<rparr>"

definition all_return :: collaborators where
  "all_return =
     \<lparr>acquire_outcome = None, begin_outcome = None, save_outcome = None,
      reacquire_outcome = None, commit_outcome = None, abort_outcome = None,
      release_outcome = None\<rparr>"

definition full_price_subrule :: Subrule where
  "full_price_subrule = \<lparr>name = ''rule_discount_size_full_price'', params = []\<rparr>"

definition leaking_rule_set :: "DiscountRule list" where
  "leaking_rule_set =
     [\<lparr>rule_discount_id = 1, size_rule = full_price_subrule,
       eligibility_rules =
         Some [\<lparr>name = ''rule_transaction_attributes'',
                 params = [(''package_size'', PStr ''M'')]\<rparr>],
       size_correction_rule = None\<rparr>,
      \<lparr>rule_discount_id = 2, size_rule = full_price_subrule,
       eligibility_rules = None, size_correction_rule = None\<rparr>]"

definition price_1_23100 :: Decimal where
  "price_1_23100 = \<lparr>dec_sign = 0, dec_digits = [1, 2, 3, 1, 0, 0], dec_exponent = Exp (- 5)\<rparr>"

definition price_1_230 :: Decimal where
  "price_1_230 = \<lparr>dec_sign = 0, dec_digits = [1, 2, 3, 0], dec_exponent = Exp (- 3)\<rparr>"

definition persisted_february :: TransactionMemoryRepo where
  "persisted_february =
     [\<lparr>date = Date 2021 2 10, package_size = ''M'', carrier = ''B'',
       discount_id = Some 1, discount = Some 24\<rparr>,
      \<lparr>date = Date 2021 3 1, package_size = ''S'', carrier = ''A'',
       discount_id = Some 1, discount = Some 7\<rparr>]"



definition persisted_huge :: TransactionMemoryRepo where
  "persisted_huge =
     [\<lparr>date = Date 2021 2 10, package_size = ''M'', carrier = ''B'',
       discount_id = Some 1, discount = Some (9 * 10 powi decimal_Emax)\<rparr>,
      \<lparr>date = Date 2021 2 11, package_size = ''M'', carrier = ''B'',
       discount_id = Some 1, discount = Some (9 * 10 powi decimal_Emax)\<rparr>]"

definition persisted_1e28 :: TransactionMemoryRepo where
  "persisted_1e28 =
     [\<lparr>date = Date 2021 2 10, package_size = ''M'', carrier = ''B'',
       discount_id = Some 1, discount = Some (10 ^ 28)\<rparr>]"

section \<open>Facts about decimal arithmetic\<close>

lemma Etiny_le: "decimal_Etiny \<le> - 2" by (simp add: decimal_Etiny_def)
lemma Emax_ge: "26 \<le> decimal_Emax + 1" by (simp add: decimal_Emax_def)

lemma pow10_le_rat:
  assumes "(10::nat) ^ j \<le> n" "of_nat n \<le> (y::rat)"
  shows "10 ^ j \<le> y"
proof -
  have "(10::rat) ^ j = of_nat (10 ^ j)" by simp
  also have "\<dots> \<le> of_nat n" using assms(1) by (rule of_nat_mono)
  finally show ?thesis using assms(2) by (rule order_trans)
qed

lemma pow10_less_rat:
  assumes "(y::rat) \<le> of_nat n" "n \<le> (10::nat) ^ j"
  shows "y \<le> 10 ^ j"
proof -
  have "(of_nat n :: rat) \<le> of_nat (10 ^ j)" using assms(2) by (rule of_nat_mono)
  also have "\<dots> = 10 ^ j" by simp
  finally show ?thesis using assms(1) by (rule order_trans[rotated])
qed

lemma powi_neg_nat: "(10::rat) powi (- int j) = 1 / 10 ^ j"
  by (simp add: power_int_minus field_simps)

lemma position_bounds:
  assumes "x \<noteq> 0"
  shows "10 powi (position x - 1) \<le> \<bar>x\<bar>" and "\<bar>x\<bar> < 10 powi (position x)"
proof -
  show "10 powi (position x - 1) \<le> \<bar>x\<bar>"
  proof (cases "1 \<le> \<bar>x\<bar>")
    case True
    define n where "n = nat \<lfloor>\<bar>x\<bar>\<rfloor>"
    have n: "0 < n" "of_nat n \<le> \<bar>x\<bar>" using True by (auto simp: n_def)
    have p: "position x = int (floorlog 10 n)" using True by (simp add: position_def n_def)
    have fl: "0 < floorlog 10 n" using n(1) by (simp add: floorlog_def)
    have "(10::nat) ^ (floorlog 10 n - 1) \<le> n" using floorlog_bounds[of n 10] n(1) by simp
    then have "(10::rat) ^ (floorlog 10 n - 1) \<le> \<bar>x\<bar>" using n(2) by (rule pow10_le_rat)
    moreover have "position x - 1 = int (floorlog 10 n - 1)" using p fl by simp
    ultimately show ?thesis by (simp only: power_int_of_nat)
  next
    case False
    define c where "c = \<lceil>1 / \<bar>x\<bar>\<rceil>"
    define k where "k = nat (c - 1)"
    have x: "0 < \<bar>x\<bar>" "\<bar>x\<bar> < 1" using assms False by auto
    have t: "1 < 1 / \<bar>x\<bar>" using x by (simp add: field_simps)
    have c: "2 \<le> c" "1 / \<bar>x\<bar> \<le> of_int c" unfolding c_def using t by (auto simp: le_ceiling_iff)
    have k: "0 < k" "int k = c - 1" using c by (auto simp: k_def)
    have p: "position x = 1 - int (floorlog 10 k)"
      using False by (simp add: position_def k_def c_def)
    have "k < 10 ^ floorlog 10 k" using floorlog_bounds[of k 10] k(1) by simp
    then have k1: "k + 1 \<le> 10 ^ floorlog 10 k" by simp
    have "int (k + 1) = c" using k(2) by simp
    then have "(of_nat (k + 1) :: rat) = of_int c" by (metis of_int_of_nat_eq)
    then have "1 / \<bar>x\<bar> \<le> of_nat (k + 1)" using c(2) by simp
    then have "1 / \<bar>x\<bar> \<le> 10 ^ floorlog 10 k" using k1 by (rule pow10_less_rat)
    then have "1 / 10 ^ floorlog 10 k \<le> \<bar>x\<bar>" using x(1) by (simp add: field_simps)
    moreover have "position x - 1 = - int (floorlog 10 k)" using p by simp
    ultimately show ?thesis by (simp only: powi_neg_nat)
  qed
  show "\<bar>x\<bar> < 10 powi (position x)"
  proof (cases "1 \<le> \<bar>x\<bar>")
    case True
    define n where "n = nat \<lfloor>\<bar>x\<bar>\<rfloor>"
    have n: "0 < n" using True by (auto simp: n_def)
    have xn: "\<bar>x\<bar> < of_nat n + 1" unfolding n_def using True by simp linarith
    have p: "position x = int (floorlog 10 n)" using True by (simp add: position_def n_def)
    have "n < 10 ^ floorlog 10 n" using floorlog_bounds[of n 10] n by simp
    then have n1: "n + 1 \<le> 10 ^ floorlog 10 n" by simp
    have "(of_nat (n + 1) :: rat) \<le> 10 ^ floorlog 10 n"
      using order_refl n1 by (rule pow10_less_rat)
    then have "\<bar>x\<bar> < 10 ^ floorlog 10 n" using xn by simp
    then show ?thesis unfolding p by (simp only: power_int_of_nat)
  next
    case False
    define c where "c = \<lceil>1 / \<bar>x\<bar>\<rceil>"
    define k where "k = nat (c - 1)"
    have x: "0 < \<bar>x\<bar>" "\<bar>x\<bar> < 1" using assms False by auto
    have t: "1 < 1 / \<bar>x\<bar>" using x by (simp add: field_simps)
    have c: "2 \<le> c" "of_int (c - 1) < 1 / \<bar>x\<bar>" unfolding c_def using t by (auto simp: le_ceiling_iff) linarith
    have k: "0 < k" "int k = c - 1" using c by (auto simp: k_def)
    have p: "position x = 1 - int (floorlog 10 k)"
      using False by (simp add: position_def k_def c_def)
    have fl: "0 < floorlog 10 k" using k(1) by (simp add: floorlog_def)
    have "(10::nat) ^ (floorlog 10 k - 1) \<le> k" using floorlog_bounds[of k 10] k(1) by simp
    then have "(10::rat) ^ (floorlog 10 k - 1) \<le> of_nat k" using order_refl by (rule pow10_le_rat)
    moreover have "(of_nat k :: rat) = of_int (c - 1)" using k(2) by (metis of_int_of_nat_eq)
    ultimately have "(10::rat) ^ (floorlog 10 k - 1) < 1 / \<bar>x\<bar>" using c(2) by simp
    then have "\<bar>x\<bar> < 1 / 10 ^ (floorlog 10 k - 1)" using x(1) by (simp add: field_simps)
    moreover have "position x = - int (floorlog 10 k - 1)" using p fl by simp
    ultimately show ?thesis by (simp only: powi_neg_nat)
  qed
qed


lemma position_le:
  assumes "x \<noteq> 0" "\<bar>x\<bar> < 10 powi m"
  shows "position x \<le> m"
proof (rule ccontr)
  assume "\<not> position x \<le> m"
  then have "m \<le> position x - 1" by simp
  then have "(10::rat) powi m \<le> 10 powi (position x - 1)" by (intro power_int_increasing) auto
  also have "\<dots> \<le> \<bar>x\<bar>" using assms(1) by (rule position_bounds)
  finally show False using assms(2) by simp
qed

lemma round_half_even_between: "\<lfloor>r\<rfloor> \<le> round_half_even r" "round_half_even r \<le> \<lceil>r\<rceil>"
proof -
  show "\<lfloor>r\<rfloor> \<le> round_half_even r" by (simp add: round_half_even_def Let_def)
  have "\<lfloor>r\<rfloor> + 1 \<le> \<lceil>r\<rceil>" if "r - of_int \<lfloor>r\<rfloor> \<noteq> 0"
    using that by (metis ceiling_altdef diff_self floor_of_int le_less of_int_floor_cancel order_refl)
  moreover have "\<lfloor>r\<rfloor> \<le> \<lceil>r\<rceil>" by (simp add: floor_le_ceiling)
  ultimately show "round_half_even r \<le> \<lceil>r\<rceil>"
    by (auto simp: round_half_even_def Let_def)
qed

lemma round_half_even_of_int [simp]: "round_half_even (of_int n) = n"
  by (simp add: round_half_even_def)

lemma round_half_even_abs_le:
  assumes "\<bar>r\<bar> \<le> of_int M"
  shows "\<bar>round_half_even r\<bar> \<le> M"
proof -
  have "r \<le> of_int M" "of_int (- M) \<le> r" using assms by auto
  then have "\<lceil>r\<rceil> \<le> M" "- M \<le> \<lfloor>r\<rfloor>" by (simp_all add: ceiling_le_iff le_floor_iff)
  with round_half_even_between[of r] show ?thesis by linarith
qed

lemma round_half_even_nonpos: "r \<le> 0 \<Longrightarrow> round_half_even r \<le> 0"
  using round_half_even_between(2)[of r] by (smt (verit) ceiling_le_zero)

lemma exp_min_le:
  assumes "x \<noteq> 0" "\<bar>x\<bar> \<le> \<bar>of_int n * 10 powi e\<bar>" "\<bar>n\<bar> < 10 ^ 28" "decimal_Etiny \<le> e"
  shows "max (position x - decimal_prec) decimal_Etiny \<le> e"
proof -
  have "\<bar>of_int n * (10::rat) powi e\<bar> = of_int \<bar>n\<bar> * 10 powi e" by (simp add: abs_mult)
  also have "\<dots> < 10 ^ 28 * 10 powi e"
  proof -
    have "(of_int \<bar>n\<bar> :: rat) < of_int (10 ^ 28)" using assms(3) by (simp only: of_int_less_iff)
    then have "(of_int \<bar>n\<bar> :: rat) < 10 ^ 28" by simp
    then show ?thesis by (intro mult_strict_right_mono) auto
  qed
  also have "\<dots> = 10 powi (28 + e)" by (simp add: power_int_add)
  finally have "\<bar>x\<bar> < 10 powi (28 + e)" using assms(2) by simp
  then have "position x \<le> 28 + e" using assms(1) by (intro position_le)
  then show ?thesis using assms(4) by (simp add: decimal_prec_def)
qed

lemma int_on_grid:
  assumes "q \<le> e"
  shows "of_int n * (10::rat) powi e / 10 powi q = of_int (n * 10 ^ nat (e - q))"
proof -
  have "(10::rat) powi e = 10 powi (e - q) * 10 powi q" by (simp add: power_int_add[symmetric])
  moreover have "(10::rat) powi (e - q) = 10 ^ nat (e - q)" using assms by (simp add: power_int_def)
  ultimately show ?thesis by simp
qed

lemma decimal_fix_le:
  assumes a: "a = of_int n * 10 powi e" "\<bar>n\<bar> < 10 ^ 28" "decimal_Etiny \<le> e"
      and x: "\<bar>x\<bar> \<le> \<bar>a\<bar>" "x \<noteq> 0"
  defines "q \<equiv> max (position x - decimal_prec) decimal_Etiny"
  shows "\<bar>of_int (round_half_even (x / 10 powi q)) * (10::rat) powi q\<bar> \<le> \<bar>a\<bar>"
proof -
  have q: "q \<le> e" unfolding q_def using x a by (intro exp_min_le[of x n e]) auto
  define M where "M = \<bar>n\<bar> * 10 ^ nat (e - q)"
  have p: "(0::rat) < 10 powi q" by simp
  have aM: "\<bar>a\<bar> / 10 powi q = of_int M"
  proof -
    have "\<bar>a\<bar> = of_int \<bar>n\<bar> * 10 powi e" unfolding a(1) by (simp add: abs_mult)
    then show ?thesis using int_on_grid[OF q, of "\<bar>n\<bar>"] by (simp add: M_def)
  qed
  have "\<bar>x / 10 powi q\<bar> = \<bar>x\<bar> / 10 powi q" by (simp add: abs_divide)
  also have "\<dots> \<le> \<bar>a\<bar> / 10 powi q" using x(1) p by (intro divide_right_mono) auto
  finally have "\<bar>x / 10 powi q\<bar> \<le> of_int M" using aM by simp
  then have "\<bar>round_half_even (x / 10 powi q)\<bar> \<le> M" by (rule round_half_even_abs_le)
  then have "(of_int \<bar>round_half_even (x / 10 powi q)\<bar> :: rat) \<le> of_int M" by (simp only: of_int_le_iff)
  then have "(of_int \<bar>round_half_even (x / 10 powi q)\<bar> :: rat) * 10 powi q \<le> of_int M * 10 powi q"
    using p by (intro mult_right_mono) auto
  also have "of_int M * 10 powi q = \<bar>a\<bar>" using aM p by (simp add: field_simps)
  finally show ?thesis by (simp add: abs_mult)
qed

lemma representable_fix:
  assumes "representable y"
  shows "decimal_fix y = Inr y"
proof (cases "y = 0")
  case True
  then show ?thesis by (simp add: decimal_fix_def)
next
  case False
  from assms obtain n e where
    y: "y = of_int n * 10 powi e" "\<bar>n\<bar> < 10 ^ 28" "decimal_Etiny \<le> e"
    and t: "\<bar>y\<bar> < 10 powi (decimal_Emax + 1)"
    by (auto simp: representable_def)
  define q where "q = max (position y - decimal_prec) decimal_Etiny"
  have q: "q \<le> e" unfolding q_def using False y by (intro exp_min_le[of y n e]) auto
  have g: "y / 10 powi q = of_int (n * 10 ^ nat (e - q))" unfolding y(1) using q by (rule int_on_grid)
  have "round_half_even (y / 10 powi q) = n * 10 ^ nat (e - q)"
    unfolding g by (rule round_half_even_of_int)
  then have "of_int (round_half_even (y / 10 powi q)) * (10::rat) powi q = y / 10 powi q * 10 powi q"
    unfolding g by (simp only:)
  also have "\<dots> = y" by simp
  finally show ?thesis using False t by (simp add: decimal_fix_def Let_def q_def[symmetric])
qed


lemma representable_0: "representable 0"
proof -
  have "(0::rat) = of_int 0 * 10 powi 0 \<and> \<bar>0::int\<bar> < 10 ^ 28 \<and> decimal_Etiny \<le> 0"
    by (simp add: decimal_Etiny_def)
  then show ?thesis unfolding representable_def by (metis abs_zero zero_less_power_int zero_less_numeral)
qed

lemma fix_representable:
  assumes "decimal_fix x = Inr y"
  shows "representable y"
proof (cases "x = 0")
  case True
  with assms show ?thesis by (simp add: decimal_fix_def representable_0)
next
  case False
  define q where "q = max (position x - decimal_prec) decimal_Etiny"
  define r where "r = round_half_even (x / 10 powi q)"
  from assms False have y: "y = of_int r * 10 powi q" and t: "\<bar>y\<bar> < 10 powi (decimal_Emax + 1)"
    by (auto simp: decimal_fix_def Let_def q_def r_def split: if_splits)
  have q: "decimal_Etiny \<le> q" "position x - 28 \<le> q" by (simp_all add: q_def decimal_prec_def)
  have "\<bar>x\<bar> < 10 powi (position x)" using False by (rule position_bounds)
  also have "\<dots> \<le> 10 powi (28 + q)" using q(2) by (intro power_int_increasing) auto
  also have "\<dots> = 10 ^ 28 * 10 powi q" by (simp add: power_int_add)
  finally have "\<bar>x\<bar> / 10 powi q < 10 ^ 28" by (simp add: field_simps)
  then have "\<bar>x / 10 powi q\<bar> \<le> of_int (10 ^ 28)" by (simp add: abs_divide)
  then have r: "\<bar>r\<bar> \<le> 10 ^ 28" unfolding r_def by (rule round_half_even_abs_le)
  show ?thesis
  proof (cases "\<bar>r\<bar> < 10 ^ 28")
    case True
    with y q(1) t show ?thesis unfolding representable_def by blast
  next
    case False
    with r have "r = 10 ^ 28 \<or> r = - (10 ^ 28)" by linarith
    then obtain r' :: int where r': "r = r' * 10" "\<bar>r'\<bar> < 10 ^ 28"
    proof
      assume "r = 10 ^ 28"
      then have "r = 10 ^ 27 * 10" "\<bar>10 ^ 27 :: int\<bar> < 10 ^ 28" by simp_all
      then show ?thesis by (rule that)
    next
      assume "r = - (10 ^ 28)"
      then have "r = (- (10 ^ 27)) * 10" "\<bar>- (10 ^ 27) :: int\<bar> < 10 ^ 28" by simp_all
      then show ?thesis by (rule that)
    qed
    have "(of_int r :: rat) = of_int r' * 10" unfolding r'(1) by simp
    then have "y = of_int r' * 10 powi (q + 1)" unfolding y by (simp add: power_int_add)
    moreover have "decimal_Etiny \<le> q + 1" using q(1) by simp
    ultimately show ?thesis using r'(2) t unfolding representable_def by blast
  qed
qed

lemma decimal_fix_idem: "decimal_fix x = Inr y \<Longrightarrow> decimal_fix y = Inr y"
  by (rule representable_fix) (rule fix_representable)

lemma decimal_fix_nonpos:
  assumes "x \<le> 0" "decimal_fix x = Inr y"
  shows "y \<le> 0"
proof (cases "x = 0")
  case True
  with assms show ?thesis by (simp add: decimal_fix_def)
next
  case False
  define q where "q = max (position x - decimal_prec) decimal_Etiny"
  from assms False have y: "y = of_int (round_half_even (x / 10 powi q)) * 10 powi q"
    by (auto simp: decimal_fix_def Let_def q_def split: if_splits)
  have "x / 10 powi q \<le> 0" using assms(1) by (simp add: divide_le_0_iff)
  then have "round_half_even (x / 10 powi q) \<le> 0" by (rule round_half_even_nonpos)
  then have "(of_int (round_half_even (x / 10 powi q)) :: rat) \<le> 0" by simp
  then show ?thesis unfolding y by (simp add: mult_le_0_iff)
qed

lemma decimal_fix_bounded:
  assumes "representable a" "\<bar>x\<bar> \<le> \<bar>a\<bar>"
  shows "\<exists>y. decimal_fix x = Inr y \<and> \<bar>y\<bar> \<le> \<bar>a\<bar>"
proof (cases "x = 0")
  case True
  then show ?thesis by (simp add: decimal_fix_def)
next
  case False
  from assms(1) obtain n e where
    a: "a = of_int n * 10 powi e" "\<bar>n\<bar> < 10 ^ 28" "decimal_Etiny \<le> e"
    and t: "\<bar>a\<bar> < 10 powi (decimal_Emax + 1)"
    by (auto simp: representable_def)
  define q where "q = max (position x - decimal_prec) decimal_Etiny"
  define y where "y = of_int (round_half_even (x / 10 powi q)) * (10::rat) powi q"
  have le: "\<bar>y\<bar> \<le> \<bar>a\<bar>" unfolding y_def q_def using a assms(2) False by (rule decimal_fix_le)
  with t have "\<not> 10 powi (decimal_Emax + 1) \<le> \<bar>y\<bar>" by simp
  then have "decimal_fix x = Inr y"
    using False by (simp add: decimal_fix_def Let_def q_def[symmetric] y_def[symmetric])
  with le show ?thesis by blast
qed

lemma cents_representable:
  assumes "cents x" "\<bar>x\<bar> < 10 ^ 26"
  shows "representable x"
proof -
  from assms(1) obtain k :: int where k: "x * 100 = of_int k" by (auto simp: cents_def elim: Ints_cases)
  then have x: "x = of_int k * 10 powi (- 2)" by (simp add: power_int_minus field_simps)
  have "\<bar>x * 100\<bar> < 10 ^ 26 * 100" using assms(2) by (simp add: abs_mult)
  then have "(of_int \<bar>k\<bar> :: rat) < of_int (10 ^ 28)" using k by simp
  then have kb: "\<bar>k\<bar> < 10 ^ 28" by (simp only: of_int_less_iff)
  have "(10::rat) ^ 26 = 10 powi 26" by simp
  also have "\<dots> \<le> 10 powi (decimal_Emax + 1)" using Emax_ge by (intro power_int_increasing) auto
  finally have "\<bar>x\<bar> < 10 powi (decimal_Emax + 1)" using assms(2) by simp
  with x kb Etiny_le show ?thesis unfolding representable_def by blast
qed

lemma cents_add: "cents a \<Longrightarrow> cents b \<Longrightarrow> cents (a + b)"
  by (simp add: cents_def distrib_right)

lemma cents_diff: "cents a \<Longrightarrow> cents b \<Longrightarrow> cents (a - b)"
  by (simp add: cents_def left_diff_distrib)


lemma position_eqI:
  assumes "10 powi (m - 1) \<le> \<bar>x\<bar>" "\<bar>x\<bar> < 10 powi m"
  shows "position x = m"
proof -
  have "(0::rat) < 10 powi (m - 1)" by simp
  with assms(1) have "0 < \<bar>x\<bar>" by linarith
  then have nz: "x \<noteq> 0" by simp
  have "position x \<le> m" using nz assms(2) by (rule position_le)
  moreover have "m \<le> position x"
  proof (rule ccontr)
    assume "\<not> m \<le> position x"
    then have "position x \<le> m - 1" by simp
    then have "(10::rat) powi position x \<le> 10 powi (m - 1)" by (intro power_int_increasing) auto
    with position_bounds(2)[OF nz] assms(1) show False by simp
  qed
  ultimately show ?thesis by simp
qed

lemma round_half_even_eqI:
  assumes "of_int n \<le> r" "r < of_int n + 1 / 2"
  shows "round_half_even r = n"
proof -
  have "\<lfloor>r\<rfloor> = n" using assms by (intro floor_unique) auto
  then show ?thesis using assms by (simp add: round_half_even_def Let_def)
qed

lemma sum_from_representable:
  "representable a \<Longrightarrow> sum_from a ds = Inr acc \<Longrightarrow> representable acc"
proof (induction ds arbitrary: a)
  case Nil
  then show ?case by simp
next
  case (Cons d ds)
  from Cons.prems(2) obtain t where t: "decimal_add a d = Inr t" "sum_from t ds = Inr acc"
    by (auto split: sum.splits)
  from t(1) have "representable t" unfolding decimal_add_def by (rule fix_representable)
  then show ?case using t(2) by (rule Cons.IH)
qed

lemma get_discount_sum_representable:
  "get_discount_sum repo start end attr = Inr acc \<Longrightarrow> representable acc"
  by (auto simp: get_discount_sum_def Let_def python_sum_def representable_0
      split: sum.splits if_splits intro: sum_from_representable[OF representable_0])

lemma accumulated_discounts_representable:
  "accumulated_discounts repo d = Inr acc \<Longrightarrow> representable acc"
  by (auto simp: accumulated_discounts_def split: sum.splits dest: get_discount_sum_representable)

section \<open>Selection of the largest discount\<close>

lemma sorted_reverse_Nil: "sorted_reverse f xs = [] \<longleftrightarrow> xs = []"
  by (metis sorted_reverse_def length_sort length_0_conv rev_is_Nil_conv)

lemma last_filter_last: "xs \<noteq> [] \<Longrightarrow> P (last xs) \<Longrightarrow> last (filter P xs) = last xs"
  by (induction xs rule: rev_induct) auto

lemma hd_sorted_reverse:
  assumes "xs \<noteq> []"
  shows "\<exists>pre post. xs = pre @ hd (sorted_reverse f xs) # post
           \<and> (\<forall>y \<in> set pre. f y < f (hd (sorted_reverse f xs)))
           \<and> (\<forall>y \<in> set post. f y \<le> f (hd (sorted_reverse f xs)))"
proof -
  define s where "s = sort_key f (rev xs)"
  define x where "x = last s"
  define P where "P = (\<lambda>y. f y = f x)"
  have ne: "s \<noteq> []" using assms unfolding s_def
    by (metis length_sort length_0_conv rev_is_Nil_conv)
  have hd_eq: "hd (sorted_reverse f xs) = x"
    using ne by (simp add: sorted_reverse_def hd_rev s_def x_def)
  have sorted: "sorted (map f s)" unfolding s_def by (rule sorted_sort_key)
  have set_s: "set s = set xs" by (simp add: s_def)
  have le: "f y \<le> f x" if "y \<in> set xs" for y
  proof -
    from that have "y \<in> set s" by (simp add: set_s)
    then obtain i where i: "i < length s" "s ! i = y" unfolding in_set_conv_nth by blast
    have "map f s ! i \<le> map f s ! (length s - 1)"
      using sorted i(1) by (intro sorted_nth_mono) auto
    then show ?thesis using i ne by (simp add: last_conv_nth x_def)
  qed
  have "x = last (filter P s)" using ne by (simp add: last_filter_last x_def P_def)
  also have "filter P s = filter P (rev xs)" unfolding s_def P_def by (rule sort_key_stable)
  also have "\<dots> = rev (filter P xs)" by (simp add: rev_filter)
  finally have x_hd: "x = hd (filter P xs)"
    by (metis hd_rev last_rev rev_rev_ident)
  have "x \<in> set xs" using ne set_s x_def by (metis last_in_set)
  then have fne: "filter P xs \<noteq> []" by (auto simp: filter_empty_conv P_def)
  then obtain rest where "filter P xs = x # rest" using x_hd by (cases "filter P xs") auto
  then obtain pre post where dec: "xs = pre @ x # post" "\<forall>u \<in> set pre. \<not> P u"
    by (auto simp: filter_eq_Cons_iff)
  have "\<forall>y \<in> set pre. f y < f x"
  proof
    fix y assume y: "y \<in> set pre"
    then have "y \<in> set xs" using dec(1) by simp
    then have "f y \<le> f x" by (rule le)
    moreover have "f y \<noteq> f x" using dec(2) y by (simp add: P_def)
    ultimately show "f y < f x" by simp
  qed
  moreover have "\<forall>y \<in> set post. f y \<le> f x"
  proof
    fix y assume "y \<in> set post"
    then have "y \<in> set xs" using dec(1) by simp
    then show "f y \<le> f x" by (rule le)
  qed
  ultimately have "xs = pre @ x # post \<and> (\<forall>y \<in> set pre. f y < f x) \<and> (\<forall>y \<in> set post. f y \<le> f x)"
    using dec(1) by simp
  then show ?thesis unfolding hd_eq by (intro exI)
qed

lemma get_largest_discount_hd:
  "xs \<noteq> [] \<Longrightarrow> get_largest_discount xs f = Inr (hd (sorted_reverse f xs))"
  by (cases "sorted_reverse f xs") (auto simp: get_largest_discount_def sorted_reverse_Nil)

lemma applicable_discounts_mem:
  assumes "r \<in> set rules" "g r = Inr (Some e)"
  shows "\<lparr>ad_discount_id = idf r, ad_discount = e\<rparr>
           \<in> set (applicable_discounts (map (\<lambda>r. (idf r, g r)) rules))"
  using assms
proof (induction rules)
  case Nil
  then show ?case by simp
next
  case (Cons a rules)
  show ?case
  proof (cases "g a")
    case (Inl err)
    with Cons show ?thesis by auto
  next
    case (Inr v)
    with Cons show ?thesis by (cases v) auto
  qed
qed

lemma applicable_discounts_decompose:
  assumes "applicable_discounts (map (\<lambda>r. (idf r, g r)) rules) = pre' @ x # post'"
  shows "\<exists>pre r post. rules = pre @ r # post
           \<and> g r = Inr (Some (ad_discount x)) \<and> idf r = ad_discount_id x
           \<and> applicable_discounts (map (\<lambda>r. (idf r, g r)) pre) = pre'
           \<and> applicable_discounts (map (\<lambda>r. (idf r, g r)) post) = post'"
  using assms
proof (induction rules arbitrary: pre')
  case Nil
  then show ?case by simp
next
  case (Cons a rules)
  let ?app = "\<lambda>rs. applicable_discounts (map (\<lambda>r. (idf r, g r)) rs)"
  have skip: ?case if same: "\<And>rs. ?app (a # rs) = ?app rs"
  proof -
    from Cons.prems same[of rules] have "?app rules = pre' @ x # post'" by simp
    from Cons.IH[OF this] obtain pre r post where
      d: "rules = pre @ r # post" "g r = Inr (Some (ad_discount x))" "idf r = ad_discount_id x"
         "?app pre = pre'" "?app post = post'"
      by blast
    have "?app (a # pre) = ?app pre" by (rule same)
    with d have "a # rules = (a # pre) @ r # post \<and> g r = Inr (Some (ad_discount x))
        \<and> idf r = ad_discount_id x \<and> ?app (a # pre) = pre' \<and> ?app post = post'"
      by simp
    then show ?thesis by blast
  qed
  show ?case
  proof (cases "g a")
    case (Inl err)
    then have "?app (a # rs) = ?app rs" for rs by simp
    then show ?thesis by (rule skip)
  next
    case (Inr v)
    show ?thesis
    proof (cases v)
      case None
      with Inr have "?app (a # rs) = ?app rs" for rs by simp
      then show ?thesis by (rule skip)
    next
      case (Some d)
      with Inr have app: "?app (a # rules) = \<lparr>ad_discount_id = idf a, ad_discount = d\<rparr> # ?app rules"
        by simp
      show ?thesis
      proof (cases pre')
        case Nil
        with Cons.prems app have "x = \<lparr>ad_discount_id = idf a, ad_discount = d\<rparr>" "?app rules = post'"
          by simp_all
        with Inr Some have "a # rules = [] @ a # rules \<and> g a = Inr (Some (ad_discount x))
            \<and> idf a = ad_discount_id x \<and> ?app [] = pre' \<and> ?app rules = post'"
          using Nil by simp
        then show ?thesis by blast
      next
        case (Cons p ps)
        with Cons.prems app have p: "p = \<lparr>ad_discount_id = idf a, ad_discount = d\<rparr>"
          and rest: "?app rules = ps @ x # post'" by simp_all
        from Cons.IH[OF rest] obtain pre r post where
          d: "rules = pre @ r # post" "g r = Inr (Some (ad_discount x))" "idf r = ad_discount_id x"
             "?app pre = ps" "?app post = post'"
          by blast
        have "?app (a # pre) = pre'" using Inr Some p d(4) Cons by simp
        with d have "a # rules = (a # pre) @ r # post \<and> g r = Inr (Some (ad_discount x))
            \<and> idf r = ad_discount_id x \<and> ?app (a # pre) = pre' \<and> ?app post = post'"
          by simp
        then show ?thesis by blast
      qed
    qed
  qed
qed

text \<open>
  C1. When no executor raised and at least one executor of the rule list returned a
  discount, the processor selects the discount of one of these executors, with that
  executor's discount id, and it is of maximum amount and, among several of maximum
  amount, of the executor earliest in evaluation order: every executor before the
  selected one that returned a discount returned a strictly smaller one, every
  executor after it one that is at most as large. The selection is a function of the
  inputs.
\<close>

theorem calculate_discount_selects_first_largest:
  assumes ok: "\<forall>r \<in> set rules. \<not> isl (snd (execute_rule ac r price plans tx repo))"
      and ne: "\<exists>r \<in> set rules. \<exists>d. snd (execute_rule ac r price plans tx repo) = Inr (Some d)"
  shows "\<exists>pre r post d.
           rules = pre @ r # post
         \<and> snd (execute_rule ac r price plans tx repo) = Inr (Some d)
         \<and> calculate_discount ac tx plans price rules repo
             = Inr (Some \<lparr>ad_discount_id = exec_discount_id r, ad_discount = d\<rparr>)
         \<and> (\<forall>q \<in> set pre. \<forall>e. snd (execute_rule ac q price plans tx repo) = Inr (Some e) \<longrightarrow> e < d)
         \<and> (\<forall>q \<in> set post. \<forall>e. snd (execute_rule ac q price plans tx repo) = Inr (Some e) \<longrightarrow> e \<le> d)"
proof -
  define g where "g = (\<lambda>r. snd (execute_rule ac r price plans tx repo))"
  let ?tasks = "\<lambda>rs. map (\<lambda>r. (exec_discount_id r, g r)) rs"
  let ?app = "applicable_discounts (?tasks rules)"
  let ?x = "hd (sorted_reverse ad_discount ?app)"
  have tasks: "exec_discount_tasks ac rules price plans tx repo = ?tasks rules"
    by (simp add: exec_discount_tasks_def g_def)
  from ne obtain r0 d0 where "r0 \<in> set rules" "g r0 = Inr (Some d0)" unfolding g_def by blast
  then have "\<lparr>ad_discount_id = exec_discount_id r0, ad_discount = d0\<rparr> \<in> set ?app"
    by (rule applicable_discounts_mem)
  then have nonempty: "?app \<noteq> []" by auto
  have noraise: "\<not> (\<exists>t \<in> set (?tasks rules). isl (snd t))" using ok by (auto simp: g_def)
  have res: "calculate_discount ac tx plans price rules repo = Inr (Some ?x)"
    unfolding calculate_discount_def tasks Let_def
    using noraise nonempty by (simp add: get_largest_discount_hd)
  obtain pre' post' where dec: "?app = pre' @ ?x # post'"
    and lt: "\<forall>y \<in> set pre'. ad_discount y < ad_discount ?x"
    and le: "\<forall>y \<in> set post'. ad_discount y \<le> ad_discount ?x"
    using hd_sorted_reverse[OF nonempty, of ad_discount] by blast
  from applicable_discounts_decompose[OF dec] obtain pre r post where
    rules: "rules = pre @ r # post" and gr: "g r = Inr (Some (ad_discount ?x))"
    and idr: "exec_discount_id r = ad_discount_id ?x"
    and pre: "applicable_discounts (?tasks pre) = pre'"
    and post: "applicable_discounts (?tasks post) = post'"
    by blast
  have x: "?x = \<lparr>ad_discount_id = exec_discount_id r, ad_discount = ad_discount ?x\<rparr>"
    using idr by simp
  have before: "e < ad_discount ?x" if "q \<in> set pre" "g q = Inr (Some e)" for q e
  proof -
    from that have "\<lparr>ad_discount_id = exec_discount_id q, ad_discount = e\<rparr>
        \<in> set (applicable_discounts (?tasks pre))"
      by (rule applicable_discounts_mem)
    with pre lt show ?thesis by fastforce
  qed
  have after: "e \<le> ad_discount ?x" if "q \<in> set post" "g q = Inr (Some e)" for q e
  proof -
    from that have "\<lparr>ad_discount_id = exec_discount_id q, ad_discount = e\<rparr>
        \<in> set (applicable_discounts (?tasks post))"
      by (rule applicable_discounts_mem)
    with post le show ?thesis by fastforce
  qed
  have "rules = pre @ r # post
         \<and> snd (execute_rule ac r price plans tx repo) = Inr (Some (ad_discount ?x))
         \<and> calculate_discount ac tx plans price rules repo
             = Inr (Some \<lparr>ad_discount_id = exec_discount_id r, ad_discount = ad_discount ?x\<rparr>)
         \<and> (\<forall>q \<in> set pre. \<forall>e. snd (execute_rule ac q price plans tx repo) = Inr (Some e)
               \<longrightarrow> e < ad_discount ?x)
         \<and> (\<forall>q \<in> set post. \<forall>e. snd (execute_rule ac q price plans tx repo) = Inr (Some e)
               \<longrightarrow> e \<le> ad_discount ?x)"
    using rules gr res x before after unfolding g_def by auto
  then show ?thesis by blast
qed

lemma full_price_run:
  "execute_rule ac (full_price_executor did) 3 [] tx_A_S [] = ([SizeRuleCalled], Inr (Some 3))"
  by (simp add: execute_rule_def initial_rule_params_def full_price_executor_def is_eligible_def
      RuleDiscountFullPrice_def
      no_methods_def missing_keys_def kwargs_keys_def RuleDiscountFullPrice_calculate_discount_def)

theorem calculate_discount_selects_first_largest_witness:
  "calculate_discount id tx_A_S [] 3 [full_price_executor 1, full_price_executor 2] []
     = Inr (Some \<lparr>ad_discount_id = 1, ad_discount = 3\<rparr>)"
proof -
  let ?rules = "[full_price_executor 1, full_price_executor 2]"
  have h1: "\<forall>r \<in> set ?rules. \<not> isl (snd (execute_rule id r 3 [] tx_A_S []))"
    by (simp add: full_price_run)
  have h2: "\<exists>r \<in> set ?rules. \<exists>d. snd (execute_rule id r 3 [] tx_A_S []) = Inr (Some d)"
    by (simp add: full_price_run)
  from calculate_discount_selects_first_largest[OF h1 h2]
  obtain pre r post d where
    dec: "?rules = pre @ r # post"
    and d: "snd (execute_rule id r 3 [] tx_A_S []) = Inr (Some d)"
    and res: "calculate_discount id tx_A_S [] 3 ?rules []
                = Inr (Some \<lparr>ad_discount_id = exec_discount_id r, ad_discount = d\<rparr>)"
    and lt: "\<forall>q \<in> set pre. \<forall>e. snd (execute_rule id q 3 [] tx_A_S []) = Inr (Some e) \<longrightarrow> e < d"
    by blast
  have "r \<in> set ?rules" using dec by (metis in_set_conv_decomp)
  then have "snd (execute_rule id r 3 [] tx_A_S []) = Inr (Some 3)"
    by (auto simp: full_price_run)
  with d have d3: "d = 3" by simp
  have "pre = []"
  proof (rule ccontr)
    assume "pre \<noteq> []"
    then obtain p ps where p: "pre = p # ps" by (cases pre) auto
    with dec have "p = full_price_executor 1" by simp
    then have "snd (execute_rule id p 3 [] tx_A_S []) = Inr (Some 3)" by (simp add: full_price_run)
    with lt p have "(3::rat) < d" by simp
    with d3 show False by simp
  qed
  with dec have "r = full_price_executor 1" by simp
  then have "exec_discount_id r = 1" by (simp add: full_price_executor_def)
  with res d3 show ?thesis by simp
qed


section \<open>Eligibility short circuit\<close>

lemma create_eligibility_tasks_Inr:
  "create_eligibility_tasks rules k = Inr tasks \<Longrightarrow>
     tasks = map (\<lambda>r. run (the (eligible_method r)) k) rules"
  by (induction rules arbitrary: tasks) (auto split: option.splits if_splits sum.splits)

lemma await_eligibility_False_in:
  "Inr False \<in> set tasks \<Longrightarrow> await_eligibility tasks \<noteq> Inr True"
  by (induction tasks) (auto split: sum.splits)

lemma await_eligibility_no_error:
  "Inr False \<in> set tasks \<Longrightarrow> \<forall>t \<in> set tasks. \<not> isl t \<Longrightarrow> await_eligibility tasks = Inr False"
  by (induction tasks) (auto split: sum.splits)

lemma is_eligible_some_false:
  assumes perm: "\<And>ts. mset (ac ts) = mset ts"
      and r: "r \<in> set rules" "eligible_method r = Some m" "run m k = Inr False"
  shows "is_eligible ac (Some rules) k \<noteq> Inr True"
proof (cases "create_eligibility_tasks rules k")
  case (Inl e)
  then show ?thesis by (simp add: is_eligible_def)
next
  case (Inr tasks)
  then have "tasks = map (\<lambda>r. run (the (eligible_method r)) k) rules"
    by (rule create_eligibility_tasks_Inr)
  with r have "Inr False \<in> set tasks" by force
  then have "Inr False \<in> set (ac tasks)" using perm[of tasks] by (metis set_mset_mset)
  then have "await_eligibility (ac tasks) \<noteq> Inr True" by (rule await_eligibility_False_in)
  with Inr show ?thesis by (simp add: is_eligible_def)
qed

lemma create_eligibility_tasks_ok:
  "\<forall>r \<in> set rules. \<exists>m. eligible_method r = Some m \<and> \<not> missing_keys m k \<Longrightarrow>
   create_eligibility_tasks rules k = Inr (map (\<lambda>r. run (the (eligible_method r)) k) rules)"
  by (induction rules) auto

lemma is_eligible_false_no_error:
  assumes perm: "\<And>ts. mset (ac ts) = mset ts"
      and r: "r \<in> set rules" "eligible_method r = Some m" "run m k = Inr False"
      and ok: "\<forall>r \<in> set rules. \<exists>m. eligible_method r = Some m \<and> \<not> missing_keys m k \<and> \<not> isl (run m k)"
  shows "is_eligible ac (Some rules) k = Inr False"
proof -
  let ?tasks = "map (\<lambda>r. run (the (eligible_method r)) k) rules"
  have c: "create_eligibility_tasks rules k = Inr ?tasks"
    using ok by (intro create_eligibility_tasks_ok) blast
  have "Inr False \<in> set ?tasks" using r by force
  then have f: "Inr False \<in> set (ac ?tasks)" using perm[of ?tasks] by (metis set_mset_mset)
  have "\<forall>t \<in> set ?tasks. \<not> isl t" using ok by auto
  then have "\<forall>t \<in> set (ac ?tasks). \<not> isl t" using perm[of ?tasks] by (metis set_mset_mset)
  with f have "await_eligibility (ac ?tasks) = Inr False" by (rule await_eligibility_no_error)
  with c show ?thesis by (simp add: is_eligible_def)
qed

lemma execute_rule_not_eligible:
  "is_eligible ac (exec_eligibility_rules self) (initial_rule_params price plans tx repo) \<noteq> Inr True \<Longrightarrow>
   fst (execute_rule ac self price plans tx repo) = [] \<and>
   snd (execute_rule ac self price plans tx repo) =
     (case is_eligible ac (exec_eligibility_rules self) (initial_rule_params price plans tx repo) of
        Inl e \<Rightarrow> Inl e | Inr _ \<Rightarrow> Inr None)"
  by (auto simp: execute_rule_def Let_def split: sum.splits bool.splits)

text \<open>
  C9 (as amended). Whatever order the eligibility tasks complete in, if one of the
  executor's eligibility rules evaluates to false, then neither the size rule nor the
  correction rule is invoked and no discount is returned. The result is \<open>None\<close>
  whenever no eligibility rule raises; otherwise the error of a rule that failed
  before the false result was seen may propagate instead.
\<close>

theorem execute_rule_short_circuit:
  assumes perm: "\<And>ts. mset (as_completed ts) = mset ts"
      and rules: "exec_eligibility_rules self = Some rules"
      and r: "r \<in> set rules" "eligible_method r = Some m"
             "run m (initial_rule_params price plans tx repo) = Inr False"
  shows "SizeRuleCalled \<notin> set (fst (execute_rule as_completed self price plans tx repo))
       \<and> (\<forall>d. CorrectionRuleCalled d \<notin> set (fst (execute_rule as_completed self price plans tx repo)))
       \<and> (\<forall>d. snd (execute_rule as_completed self price plans tx repo) \<noteq> Inr (Some d))
       \<and> ((\<forall>r \<in> set rules. \<exists>m. eligible_method r = Some m
               \<and> \<not> missing_keys m (initial_rule_params price plans tx repo)
               \<and> \<not> isl (run m (initial_rule_params price plans tx repo)))
            \<longrightarrow> snd (execute_rule as_completed self price plans tx repo) = Inr None)"
proof -
  let ?k = "initial_rule_params price plans tx repo"
  have ne: "is_eligible as_completed (exec_eligibility_rules self) ?k \<noteq> Inr True"
    unfolding rules using perm r by (rule is_eligible_some_false)
  note ex = execute_rule_not_eligible[OF ne]
  have 1: "SizeRuleCalled \<notin> set (fst (execute_rule as_completed self price plans tx repo))"
    using ex by simp
  have 2: "\<forall>d. CorrectionRuleCalled d \<notin> set (fst (execute_rule as_completed self price plans tx repo))"
    using ex by simp
  have 3: "\<forall>d. snd (execute_rule as_completed self price plans tx repo) \<noteq> Inr (Some d)"
    using ex by (auto split: sum.splits)
  have 4: "snd (execute_rule as_completed self price plans tx repo) = Inr None"
    if ok: "\<forall>r \<in> set rules. \<exists>m. eligible_method r = Some m \<and> \<not> missing_keys m ?k \<and> \<not> isl (run m ?k)"
  proof -
    have "is_eligible as_completed (Some rules) ?k = Inr False"
      using perm r ok by (rule is_eligible_false_no_error)
    then show ?thesis using ex by (simp add: rules)
  qed
  from 1 2 3 4 show ?thesis by blast
qed


lemma only_M_false:
  "RuleTransactionAttributes_eligible [(''package_size'', PStr ''M'')]
     (initial_rule_params 3 [] tx_A_S []) = Inr False"
  by (simp add: RuleTransactionAttributes_eligible_def attributes_equal_def initial_rule_params_def
      tx_A_S_def getattr_UnprocessedTransaction_def)

theorem execute_rule_short_circuit_witness:
  "SizeRuleCalled \<notin> set (fst (execute_rule id only_M_executor 3 [] tx_A_S []))
   \<and> snd (execute_rule id only_M_executor 3 [] tx_A_S []) = Inr None"
proof -
  let ?r = "RuleTransactionAttributes [(''package_size'', PStr ''M'')]"
  let ?m = "\<lparr>arg_names = [''transaction''],
              run = RuleTransactionAttributes_eligible [(''package_size'', PStr ''M'')]\<rparr>"
  have perm: "mset (id ts) = mset ts" for ts :: "(error + bool) list" by simp
  have rules: "exec_eligibility_rules only_M_executor = Some [?r]"
    by (simp add: only_M_executor_def)
  have r1: "?r \<in> set [?r]" by simp
  have r2: "eligible_method ?r = Some ?m"
    by (simp add: RuleTransactionAttributes_def no_methods_def)
  have r3: "run ?m (initial_rule_params 3 [] tx_A_S []) = Inr False"
    by (simp add: only_M_false)
  have ok: "\<forall>r \<in> set [?r]. \<exists>m. eligible_method r = Some m
              \<and> \<not> missing_keys m (initial_rule_params 3 [] tx_A_S [])
              \<and> \<not> isl (run m (initial_rule_params 3 [] tx_A_S []))"
    using r2 r3 by (simp add: missing_keys_def kwargs_keys_def)
  from execute_rule_short_circuit[of id, OF perm rules r1 r2 r3] ok
  show ?thesis by blast
qed

text \<open>
  The claim as stated, that \<open>None\<close> is returned as soon as some eligibility rule
  evaluates to false, fails when another rule raises first: an attribute rule
  configured with no attributes raises \<^verbatim>\<open>TypeError\<close> in \<^verbatim>\<open>attributes_equal\<close>, and
  with the tasks completing in creation order that error is what \<^verbatim>\<open>execute_rule\<close>
  raises, although the second rule evaluates to false.
\<close>

theorem execute_rule_false_but_raises_counterexample:
  "DiscountRuleExecutor_init 1 RuleDiscountFullPrice
     (Some [RuleTransactionAttributes [],
            RuleTransactionAttributes [(''package_size'', PStr ''M'')]]) None
     = Inr raising_then_false_executor
   \<and> RuleTransactionAttributes_eligible [(''package_size'', PStr ''M'')]
       (initial_rule_params 3 [] tx_A_S []) = Inr False
   \<and> snd (execute_rule id raising_then_false_executor 3 [] tx_A_S []) = Inl TypeError"
proof -
  have 1: "DiscountRuleExecutor_init 1 RuleDiscountFullPrice
     (Some [RuleTransactionAttributes [],
            RuleTransactionAttributes [(''package_size'', PStr ''M'')]]) None
     = Inr raising_then_false_executor"
    by (simp add: DiscountRuleExecutor_init_def raising_then_false_executor_def
        RuleTransactionAttributes_def RuleDiscountFullPrice_def no_methods_def)
  have 3: "snd (execute_rule id raising_then_false_executor 3 [] tx_A_S []) = Inl TypeError"
    by (simp add: execute_rule_def raising_then_false_executor_def is_eligible_def
        RuleTransactionAttributes_def no_methods_def missing_keys_def kwargs_keys_def
        initial_rule_params_def RuleTransactionAttributes_eligible_def attributes_equal_def)
  from 1 only_M_false 3 show ?thesis by blast
qed

section \<open>An empty sequence of eligibility rules\<close>

lemma size_rule_first:
  assumes "is_eligible ac (exec_eligibility_rules self) (initial_rule_params price plans tx repo) = Inr True"
      and "calculate_discount_method (exec_size_rule self) = Some m"
      and "\<not> missing_keys m (initial_rule_params price plans tx repo)"
  shows "SizeRuleCalled \<in> set (fst (execute_rule ac self price plans tx repo))"
  using assms
  by (auto simp: execute_rule_def correct_size_def Let_def split: sum.splits option.splits)

text \<open>
  C10. An executor constructed with an empty sequence of eligibility rules behaves
  as one constructed with none: construction checks no eligibility rule, fails or
  succeeds exactly as it does for \<open>None\<close> (the executors differ in the stored field
  only), and succeeds whenever the size rule has its method and the correction rule,
  if one is given, has its method with a discount parameter; evaluation finds the
  transaction eligible, gives the same result with the same calls as for \<open>None\<close>,
  and proceeds to the size rule: whenever the size rule's method can be called with
  the rule parameters it is called, an error it raises is the result, and without a
  correction rule a positive size it returns is the result. Awaiting no task yields
  no task.
\<close>

theorem empty_eligibility_rules_as_none:
  assumes "as_completed [] = []"
  shows "DiscountRuleExecutor_init did size_obj (Some []) corr =
           (case DiscountRuleExecutor_init did size_obj None corr of
              Inl e \<Rightarrow> Inl e
            | Inr ex \<Rightarrow> Inr (ex\<lparr>exec_eligibility_rules := Some []\<rparr>))
       \<and> (calculate_discount_method size_obj \<noteq> None
            \<and> (\<forall>c. corr = Some c \<longrightarrow>
                  (\<exists>cm. correct_method c = Some cm \<and> ''discount'' \<in> set (arg_names cm)))
          \<longrightarrow> DiscountRuleExecutor_init did size_obj (Some []) corr =
                Inr \<lparr>exec_discount_id = did, exec_eligibility_rules = Some [],
                     exec_size_rule = size_obj, exec_size_correction_rule = corr\<rparr>)
       \<and> is_eligible as_completed (Some []) k = Inr True
       \<and> is_eligible as_completed (Some []) k = is_eligible as_completed None k
       \<and> execute_rule as_completed (self\<lparr>exec_eligibility_rules := Some []\<rparr>) price plans tx repo
           = execute_rule as_completed (self\<lparr>exec_eligibility_rules := None\<rparr>) price plans tx repo
       \<and> (\<forall>m. calculate_discount_method (exec_size_rule self) = Some m
                \<and> \<not> missing_keys m (initial_rule_params price plans tx repo)
            \<longrightarrow> SizeRuleCalled \<in> set (fst (execute_rule as_completed
                     (self\<lparr>exec_eligibility_rules := Some []\<rparr>) price plans tx repo))
              \<and> (\<forall>e. run m (initial_rule_params price plans tx repo) = Inl e
                   \<longrightarrow> execute_rule as_completed (self\<lparr>exec_eligibility_rules := Some []\<rparr>)
                         price plans tx repo = ([SizeRuleCalled], Inl e))
              \<and> (\<forall>sz. run m (initial_rule_params price plans tx repo) = Inr sz \<and> 0 < sz
                        \<and> exec_size_correction_rule self = None
                   \<longrightarrow> execute_rule as_completed (self\<lparr>exec_eligibility_rules := Some []\<rparr>)
                         price plans tx repo = ([SizeRuleCalled], Inr (Some sz))))"
proof -
  let ?self = "self\<lparr>exec_eligibility_rules := Some []\<rparr>"
  let ?k = "initial_rule_params price plans tx repo"
  have 1: "DiscountRuleExecutor_init did size_obj (Some []) corr =
           (case DiscountRuleExecutor_init did size_obj None corr of
              Inl e \<Rightarrow> Inl e
            | Inr ex \<Rightarrow> Inr (ex\<lparr>exec_eligibility_rules := Some []\<rparr>))"
    by (simp add: DiscountRuleExecutor_init_def)
  have 8: "calculate_discount_method size_obj \<noteq> None
            \<and> (\<forall>c. corr = Some c \<longrightarrow>
                  (\<exists>cm. correct_method c = Some cm \<and> ''discount'' \<in> set (arg_names cm)))
          \<longrightarrow> DiscountRuleExecutor_init did size_obj (Some []) corr =
                Inr \<lparr>exec_discount_id = did, exec_eligibility_rules = Some [],
                     exec_size_rule = size_obj, exec_size_correction_rule = corr\<rparr>"
    by (cases corr) (auto simp: DiscountRuleExecutor_init_def)
  have 2: "is_eligible as_completed (Some []) k' = Inr True" for k'
    using assms by (simp add: is_eligible_def)
  have 3: "is_eligible as_completed None k' = Inr True" for k'
    by (simp add: is_eligible_def)
  have 4: "execute_rule as_completed ?self price plans tx repo
           = execute_rule as_completed (self\<lparr>exec_eligibility_rules := None\<rparr>) price plans tx repo"
    by (simp add: execute_rule_def 2 3 Let_def split: option.splits sum.splits)
  have 5: "SizeRuleCalled \<in> set (fst (execute_rule as_completed ?self price plans tx repo))"
    if "calculate_discount_method (exec_size_rule self) = Some m" "\<not> missing_keys m ?k" for m
    using that by (intro size_rule_first[where m = m]) (simp_all add: 2)
  have 6: "execute_rule as_completed ?self price plans tx repo = ([SizeRuleCalled], Inl e)"
    if "calculate_discount_method (exec_size_rule self) = Some m" "\<not> missing_keys m ?k"
       "run m ?k = Inl e" for m e
    using that by (simp add: execute_rule_def 2 Let_def)
  have 7: "execute_rule as_completed ?self price plans tx repo = ([SizeRuleCalled], Inr (Some sz))"
    if "calculate_discount_method (exec_size_rule self) = Some m" "\<not> missing_keys m ?k"
       "run m ?k = Inr sz \<and> 0 < sz \<and> exec_size_correction_rule self = None" for m sz
    using that by (simp add: execute_rule_def 2 Let_def)
  have 9: "\<forall>m. calculate_discount_method (exec_size_rule self) = Some m
                \<and> \<not> missing_keys m (initial_rule_params price plans tx repo)
            \<longrightarrow> SizeRuleCalled \<in> set (fst (execute_rule as_completed
                     (self\<lparr>exec_eligibility_rules := Some []\<rparr>) price plans tx repo))
              \<and> (\<forall>e. run m (initial_rule_params price plans tx repo) = Inl e
                   \<longrightarrow> execute_rule as_completed (self\<lparr>exec_eligibility_rules := Some []\<rparr>)
                         price plans tx repo = ([SizeRuleCalled], Inl e))
              \<and> (\<forall>sz. run m (initial_rule_params price plans tx repo) = Inr sz \<and> 0 < sz
                        \<and> exec_size_correction_rule self = None
                   \<longrightarrow> execute_rule as_completed (self\<lparr>exec_eligibility_rules := Some []\<rparr>)
                         price plans tx repo = ([SizeRuleCalled], Inr (Some sz)))"
  proof (intro allI impI)
    fix m
    assume "calculate_discount_method (exec_size_rule self) = Some m
              \<and> \<not> missing_keys m (initial_rule_params price plans tx repo)"
    then have cm: "calculate_discount_method (exec_size_rule self) = Some m"
      and mk: "\<not> missing_keys m ?k" by simp_all
    show "SizeRuleCalled \<in> set (fst (execute_rule as_completed
                     (self\<lparr>exec_eligibility_rules := Some []\<rparr>) price plans tx repo))
              \<and> (\<forall>e. run m (initial_rule_params price plans tx repo) = Inl e
                   \<longrightarrow> execute_rule as_completed (self\<lparr>exec_eligibility_rules := Some []\<rparr>)
                         price plans tx repo = ([SizeRuleCalled], Inl e))
              \<and> (\<forall>sz. run m (initial_rule_params price plans tx repo) = Inr sz \<and> 0 < sz
                        \<and> exec_size_correction_rule self = None
                   \<longrightarrow> execute_rule as_completed (self\<lparr>exec_eligibility_rules := Some []\<rparr>)
                         price plans tx repo = ([SizeRuleCalled], Inr (Some sz)))"
      using 5[OF cm mk] 6[OF cm mk] 7[OF cm mk] by blast
  qed
  have 10: "is_eligible as_completed (Some []) k = is_eligible as_completed None k"
    by (simp add: 2 3)
  show ?thesis
    by (intro conjI) (rule 1, rule 8, rule 2, rule 10, rule 4, rule 9)
qed

theorem empty_eligibility_rules_as_none_witness:
  "DiscountRuleExecutor_init 7 RuleDiscountFullPrice (Some []) None =
     Inr ((full_price_executor 7)\<lparr>exec_eligibility_rules := Some []\<rparr>)
   \<and> execute_rule id ((full_price_executor 7)\<lparr>exec_eligibility_rules := Some []\<rparr>) 3 [] tx_A_S []
       = ([SizeRuleCalled], Inr (Some 3))"
proof -
  let ?m = "\<lparr>arg_names = [''price''], run = RuleDiscountFullPrice_calculate_discount\<rparr>"
  let ?k = "initial_rule_params 3 [] tx_A_S []"
  have h: "id ([] :: (error + bool) list) = []" by simp
  have c: "calculate_discount_method RuleDiscountFullPrice \<noteq> None
            \<and> (\<forall>c. (None :: rule_object option) = Some c \<longrightarrow>
                  (\<exists>cm. correct_method c = Some cm \<and> ''discount'' \<in> set (arg_names cm)))"
    by (simp add: RuleDiscountFullPrice_def no_methods_def)
  have m: "calculate_discount_method (exec_size_rule (full_price_executor 7)) = Some ?m
           \<and> \<not> missing_keys ?m ?k"
    by (simp add: full_price_executor_def RuleDiscountFullPrice_def no_methods_def missing_keys_def
        kwargs_keys_def initial_rule_params_def)
  have r: "run ?m ?k = Inr 3 \<and> (0::rat) < 3 \<and> exec_size_correction_rule (full_price_executor 7) = None"
    by (simp add: RuleDiscountFullPrice_calculate_discount_def initial_rule_params_def
        full_price_executor_def)
  have f: "\<lparr>exec_discount_id = 7, exec_eligibility_rules = Some [],
            exec_size_rule = RuleDiscountFullPrice, exec_size_correction_rule = None\<rparr>
           = (full_price_executor 7)\<lparr>exec_eligibility_rules := Some []\<rparr>"
    by (simp add: full_price_executor_def)
  note t = empty_eligibility_rules_as_none[of id 7 RuleDiscountFullPrice None ?k
             "full_price_executor 7" 3 "[]" tx_A_S "[]", OF h]
  from t c have "DiscountRuleExecutor_init 7 RuleDiscountFullPrice (Some []) None =
     Inr ((full_price_executor 7)\<lparr>exec_eligibility_rules := Some []\<rparr>)"
    unfolding f[symmetric] by blast
  moreover from t m r have
    "execute_rule id ((full_price_executor 7)\<lparr>exec_eligibility_rules := Some []\<rparr>) 3 [] tx_A_S []
       = ([SizeRuleCalled], Inr (Some 3))"
    by blast
  ultimately show ?thesis by simp
qed


section \<open>The discounts persisted in a calendar month\<close>

lemma monthrange_valid:
  "valid_date d \<Longrightarrow> \<exists>n. monthrange (year d) (month d) = Inr n"
  by (auto simp: valid_date_def split: sum.splits)

lemma get_calendar_month_range_dates_valid:
  "valid_date d \<Longrightarrow> \<exists>n. monthrange (year d) (month d) = Inr n \<and>
     get_calendar_month_range_dates d = Inr (Date (year d) (month d) 1, Date (year d) (month d) n)"
  by (auto simp: valid_date_def get_calendar_month_range_dates_def split: sum.splits)

lemma valid_date_tx_A_S: "valid_date (date tx_A_S)"
  by (simp add: valid_date_def tx_A_S_def monthrange_def mdays_def isleap_def)

lemma in_month_range:
  assumes "valid_date t" "monthrange y m = Inr n"
  shows "(date_le (Date y m 1) t \<and> date_le t (Date y m n)) \<longleftrightarrow> (year t = y \<and> month t = m)"
proof
  assume "date_le (Date y m 1) t \<and> date_le t (Date y m n)"
  then show "year t = y \<and> month t = m" by (auto simp: date_le_def)
next
  assume eq: "year t = y \<and> month t = m"
  with assms have "1 \<le> day t \<and> day t \<le> n" by (auto simp: valid_date_def)
  with eq show "date_le (Date y m 1) t \<and> date_le t (Date y m n)" by (auto simp: date_le_def)
qed

lemma filter_month_range:
  assumes "\<forall>t \<in> set repo. valid_date (date t)" "monthrange y m = Inr n"
  shows "filter_transactions_by_date repo (Some (Date y m 1)) (Some (Date y m n))
           = filter (\<lambda>t. year (date t) = y \<and> month (date t) = m) repo"
proof -
  have "filter_transactions_by_date repo (Some (Date y m 1)) (Some (Date y m n))
          = filter (\<lambda>t. date_le (Date y m 1) (date t) \<and> date_le (date t) (Date y m n)) repo"
    by (simp add: filter_transactions_by_date_def Let_def conj_commute)
  also have "\<dots> = filter (\<lambda>t. year (date t) = y \<and> month (date t) = m) repo"
    using assms by (intro filter_cong refl in_month_range) auto
  finally show ?thesis .
qed

lemma accumulated_discounts_month:
  assumes "valid_date d" "\<forall>t \<in> set repo. valid_date (date t)"
  shows "accumulated_discounts repo d =
           (if present_discounts (filter (\<lambda>t. same_month d (date t)) repo) = [] then Inr 0
            else python_sum (present_discounts (filter (\<lambda>t. same_month d (date t)) repo)))"
proof -
  from get_calendar_month_range_dates_valid[OF assms(1)] obtain n where
    n: "monthrange (year d) (month d) = Inr n"
       "get_calendar_month_range_dates d = Inr (Date (year d) (month d) 1, Date (year d) (month d) n)"
    by blast
  have f: "filter_transactions_by_date repo (Some (Date (year d) (month d) 1))
             (Some (Date (year d) (month d) n)) = filter (\<lambda>t. same_month d (date t)) repo"
    unfolding filter_month_range[OF assms(2) n(1)] by (simp add: same_month_def)
  have g: "get_discount_sum repo s e None =
             (if present_discounts (filter_transactions_by_date repo s e) = [] then Inr 0
              else python_sum (present_discounts (filter_transactions_by_date repo s e)))" for s e
    by (simp add: get_discount_sum_def filter_by_attr_def Let_def)
  have "get_discount_sum repo (Some (Date (year d) (month d) 1)) (Some (Date (year d) (month d) n)) None
          = (if present_discounts (filter (\<lambda>t. same_month d (date t)) repo) = [] then Inr 0
             else python_sum (present_discounts (filter (\<lambda>t. same_month d (date t)) repo)))"
    unfolding g f by (rule refl)
  then show ?thesis unfolding accumulated_discounts_def n(2) by simp
qed

section \<open>A raw discount of zero\<close>

lemma limiter_zero:
  assumes "0 < limit" "rp_discount k = Some 0"
  shows "BasicMonthlyDiscountSizeLimiter_correct limit k =
           (case accumulated_discounts (rp_transaction_repo k) (date (rp_transaction k)) of
              Inl e \<Rightarrow> Inl e
            | Inr accumulated \<Rightarrow> Inr (Some 0))"
proof (cases "accumulated_discounts (rp_transaction_repo k) (date (rp_transaction k))")
  case (Inl e)
  then show ?thesis using assms(2) by (simp add: BasicMonthlyDiscountSizeLimiter_correct_def)
next
  case (Inr acc)
  then have rep: "representable acc" by (rule accumulated_discounts_representable)
  then have add: "decimal_add 0 acc = Inr acc" by (simp add: decimal_add_def representable_fix)
  show ?thesis
  proof (cases "acc \<le> limit")
    case True
    then show ?thesis using assms(2) Inr add
      by (simp add: BasicMonthlyDiscountSizeLimiter_correct_def)
  next
    case False
    then have "\<bar>limit - acc\<bar> \<le> \<bar>acc\<bar>" using assms(1) by simp
    with rep obtain c where c: "decimal_fix (limit - acc) = Inr c"
      using decimal_fix_bounded by blast
    have "limit - acc \<le> 0" using False by simp
    then have "c \<le> 0" using c by (rule decimal_fix_nonpos)
    then have "decimal_max c 0 = Inr 0" by (simp add: decimal_max_def max_def decimal_fix_def)
    then show ?thesis using assms(2) Inr add False c
      by (simp add: BasicMonthlyDiscountSizeLimiter_correct_def decimal_sub_def)
  qed
qed

lemma execute_rule_zero:
  assumes "is_eligible ac (exec_eligibility_rules self) (initial_rule_params price plans tx repo) = Inr True"
      and "calculate_discount_method (exec_size_rule self) = Some m"
      and "\<not> missing_keys m (initial_rule_params price plans tx repo)"
      and "run m (initial_rule_params price plans tx repo) = Inr 0"
  shows "execute_rule ac self price plans tx repo =
           (case exec_size_correction_rule self of
              None \<Rightarrow> ([SizeRuleCalled], Inr None)
            | Some rule \<Rightarrow> correct_size rule (initial_rule_params price plans tx repo) 0)"
  using assms by (simp add: execute_rule_def Let_def split: option.splits)

lemma correct_size_result:
  assumes "correct_method rule = Some cm" "\<not> missing_keys cm (k\<lparr>rp_discount := Some sz\<rparr>)"
  shows "CorrectionRuleCalled sz \<in> set (fst (correct_size rule k sz))
       \<and> snd (correct_size rule k sz) =
           (case run cm (k\<lparr>rp_discount := Some sz\<rparr>) of
              Inl e \<Rightarrow> Inl e
            | Inr None \<Rightarrow> Inr None
            | Inr (Some c) \<Rightarrow> if 0 < c then Inr (Some c) else Inr None)"
  using assms by (auto simp: correct_size_def Let_def split: sum.splits option.splits)

text \<open>
  C3 (as amended). When the transaction is eligible and the size rule computes a raw
  discount of exactly zero: with no correction rule bound, \<^verbatim>\<open>execute_rule\<close> returns
  \<open>None\<close>; with a correction rule bound, the zero is passed to the correction rule
  and the result is decided by the corrected amount alone (\<open>None\<close> when that is
  \<open>None\<close>, zero or negative, the corrected amount when it is positive, the rule's
  error when it raises); with the monthly limiter bound the result is \<open>None\<close>,
  unless the sum of the month's persisted discounts leaves the range of the decimal
  context, in which case the limiter's \<^verbatim>\<open>decimal.Overflow\<close> propagates.
\<close>

theorem zero_raw_discount:
  assumes elig: "is_eligible as_completed (exec_eligibility_rules self)
                   (initial_rule_params price plans tx repo) = Inr True"
      and m: "calculate_discount_method (exec_size_rule self) = Some m"
      and keys: "\<not> missing_keys m (initial_rule_params price plans tx repo)"
      and zero: "run m (initial_rule_params price plans tx repo) = Inr 0"
  shows "(exec_size_correction_rule self = None \<longrightarrow>
            snd (execute_rule as_completed self price plans tx repo) = Inr None)
       \<and> (\<forall>rule cm. exec_size_correction_rule self = Some rule \<and> correct_method rule = Some cm
              \<and> \<not> missing_keys cm ((initial_rule_params price plans tx repo)\<lparr>rp_discount := Some 0\<rparr>)
            \<longrightarrow> CorrectionRuleCalled 0 \<in> set (fst (execute_rule as_completed self price plans tx repo))
              \<and> snd (execute_rule as_completed self price plans tx repo) =
                  (case run cm ((initial_rule_params price plans tx repo)\<lparr>rp_discount := Some 0\<rparr>) of
                     Inl e \<Rightarrow> Inl e
                   | Inr None \<Rightarrow> Inr None
                   | Inr (Some c) \<Rightarrow> if 0 < c then Inr (Some c) else Inr None))
       \<and> (\<forall>rule limit. exec_size_correction_rule self = Some rule
              \<and> BasicMonthlyDiscountSizeLimiter limit = Inr rule \<and> valid_date (date tx)
            \<longrightarrow> snd (execute_rule as_completed self price plans tx repo) =
                  (case accumulated_discounts repo (date tx) of
                     Inl e \<Rightarrow> Inl e
                   | Inr accumulated \<Rightarrow> Inr None))"
proof -
  let ?k = "initial_rule_params price plans tx repo"
  note ex = execute_rule_zero[OF elig m keys zero]
  have 1: "exec_size_correction_rule self = None \<longrightarrow>
            snd (execute_rule as_completed self price plans tx repo) = Inr None"
    using ex by simp
  have 2: "CorrectionRuleCalled 0 \<in> set (fst (execute_rule as_completed self price plans tx repo))
         \<and> snd (execute_rule as_completed self price plans tx repo) =
             (case run cm (?k\<lparr>rp_discount := Some 0\<rparr>) of
                Inl e \<Rightarrow> Inl e
              | Inr None \<Rightarrow> Inr None
              | Inr (Some c) \<Rightarrow> if 0 < c then Inr (Some c) else Inr None)"
    if "exec_size_correction_rule self = Some rule" "correct_method rule = Some cm"
       "\<not> missing_keys cm (?k\<lparr>rp_discount := Some 0\<rparr>)" for rule cm
    using ex that correct_size_result[where rule=rule and cm=cm and k="?k" and sz=0] by simp
  have 3: "snd (execute_rule as_completed self price plans tx repo) =
             (case accumulated_discounts repo (date tx) of
                Inl e \<Rightarrow> Inl e
              | Inr accumulated \<Rightarrow> Inr None)"
    if r: "exec_size_correction_rule self = Some rule"
       "BasicMonthlyDiscountSizeLimiter limit = Inr rule" "valid_date (date tx)" for rule limit
  proof -
    let ?cm = "\<lparr>arg_names = [''discount'', ''transaction'', ''transaction_repo''],
                 run = BasicMonthlyDiscountSizeLimiter_correct limit\<rparr>"
    from r(2) have pos: "0 < limit" and cm: "correct_method rule = Some ?cm"
      by (auto simp: BasicMonthlyDiscountSizeLimiter_def no_methods_def split: if_splits)
    have mk: "\<not> missing_keys ?cm (?k\<lparr>rp_discount := Some 0\<rparr>)"
      by (simp add: missing_keys_def kwargs_keys_def)
    have "run ?cm (?k\<lparr>rp_discount := Some 0\<rparr>) =
            (case accumulated_discounts repo (date tx) of
               Inl e \<Rightarrow> Inl e
             | Inr accumulated \<Rightarrow> Inr (Some 0))"
      using limiter_zero[where k="?k\<lparr>rp_discount := Some 0\<rparr>" and limit=limit] pos
      by (simp add: initial_rule_params_def)
    with 2[OF r(1) cm mk] show ?thesis by (simp split: sum.splits)
  qed
  from 1 2 3 show ?thesis by blast
qed


lemma full_price_method:
  "calculate_discount_method RuleDiscountFullPrice =
     Some \<lparr>arg_names = [''price''], run = RuleDiscountFullPrice_calculate_discount\<rparr>"
  by (simp add: RuleDiscountFullPrice_def no_methods_def)

theorem zero_raw_discount_witness:
  "snd (execute_rule id limited_executor 0 [] tx_A_S []) = Inr None"
proof -
  let ?k = "initial_rule_params 0 [] tx_A_S []"
  let ?m = "\<lparr>arg_names = [''price''], run = RuleDiscountFullPrice_calculate_discount\<rparr>"
  have elig: "is_eligible id (exec_eligibility_rules limited_executor) ?k = Inr True"
    by (simp add: limited_executor_def is_eligible_def)
  have m: "calculate_discount_method (exec_size_rule limited_executor) = Some ?m"
    by (simp add: limited_executor_def full_price_method)
  have keys: "\<not> missing_keys ?m ?k"
    by (simp add: missing_keys_def kwargs_keys_def)
  have zero: "run ?m ?k = Inr 0"
    by (simp add: RuleDiscountFullPrice_calculate_discount_def initial_rule_params_def)
  have c: "exec_size_correction_rule limited_executor = Some limiter_25"
    by (simp add: limited_executor_def)
  have l: "BasicMonthlyDiscountSizeLimiter 25 = Inr limiter_25"
    by (simp add: BasicMonthlyDiscountSizeLimiter_def limiter_25_def)
  have a: "accumulated_discounts [] (date tx_A_S) = Inr 0"
    using get_calendar_month_range_dates_valid[OF valid_date_tx_A_S]
    by (auto simp: accumulated_discounts_def get_discount_sum_def filter_by_attr_def
        filter_transactions_by_date_def)
  from zero_raw_discount[OF elig m keys zero] c l valid_date_tx_A_S
  have "snd (execute_rule id limited_executor 0 [] tx_A_S []) =
          (case accumulated_discounts [] (date tx_A_S) of
             Inl e \<Rightarrow> Inl e
           | Inr accumulated \<Rightarrow> Inr None)" by blast
  then show ?thesis unfolding a by simp
qed

text \<open>
  The sum of the month's discounts can leave the range of the decimal context: with
  two discounts of \<open>9 * 10 ^ 999999\<close> persisted in the month, the limiter raises
  \<^verbatim>\<open>decimal.Overflow\<close> also for a raw discount of zero.
\<close>

lemma huge_sum_overflows:
  "decimal_add 0 (9 * 10 powi decimal_Emax) = Inr (9 * 10 powi decimal_Emax)
   \<and> decimal_add (9 * 10 powi decimal_Emax) (9 * 10 powi decimal_Emax) = Inl DecimalOverflow"
proof -
  define Q :: rat where "Q = 10 powi (decimal_Emax - 26)"
  have Qpos: "0 < Q" by (simp add: Q_def)
  have P: "(10::rat) powi decimal_Emax = 10 ^ 26 * Q"
  proof -
    have "(10::rat) powi decimal_Emax = 10 powi (26 + (decimal_Emax - 26))"
      by (rule arg_cong[where f = "\<lambda>n. 10 powi n"]) simp
    also have "\<dots> = 10 powi 26 * 10 powi (decimal_Emax - 26)"
      by (rule power_int_add) simp
    finally show ?thesis by (simp add: Q_def)
  qed
  have P1: "(10::rat) powi (decimal_Emax + 1) = 10 ^ 27 * Q"
  proof -
    have "(10::rat) powi (decimal_Emax + 1) = 10 powi (27 + (decimal_Emax - 26))"
      by (rule arg_cong[where f = "\<lambda>n. 10 powi n"]) simp
    also have "\<dots> = 10 powi 27 * 10 powi (decimal_Emax - 26)"
      by (rule power_int_add) simp
    finally show ?thesis by (simp add: Q_def)
  qed
  have P2: "(10::rat) powi (decimal_Emax + 2) = 10 ^ 28 * Q"
  proof -
    have "(10::rat) powi (decimal_Emax + 2) = 10 powi (28 + (decimal_Emax - 26))"
      by (rule arg_cong[where f = "\<lambda>n. 10 powi n"]) simp
    also have "\<dots> = 10 powi 28 * 10 powi (decimal_Emax - 26)"
      by (rule power_int_add) simp
    finally show ?thesis by (simp add: Q_def)
  qed
  have "representable (9 * 10 powi decimal_Emax)"
  proof -
    have "decimal_Etiny \<le> decimal_Emax" by (simp add: decimal_Etiny_def decimal_Emax_def)
    then have "9 * (10::rat) powi decimal_Emax = of_int 9 * 10 powi decimal_Emax
          \<and> \<bar>9::int\<bar> < 10 ^ 28 \<and> decimal_Etiny \<le> decimal_Emax"
      by simp
    moreover have "\<bar>9 * (10::rat) powi decimal_Emax\<bar> < 10 powi (decimal_Emax + 1)"
      unfolding P P1 using Qpos by (simp add: abs_mult)
    ultimately show ?thesis unfolding representable_def by blast
  qed
  then have 1: "decimal_add 0 (9 * 10 powi decimal_Emax) = Inr (9 * 10 powi decimal_Emax)"
    by (simp add: decimal_add_def representable_fix)
  let ?x = "9 * (10::rat) powi decimal_Emax + 9 * 10 powi decimal_Emax"
  have x: "?x = 18 * 10 ^ 26 * Q" unfolding P by simp
  have nz: "?x \<noteq> 0" unfolding x using Qpos by simp
  have pos: "position ?x = decimal_Emax + 2"
  proof (rule position_eqI)
    have e: "decimal_Emax + 2 - 1 = decimal_Emax + 1" by simp
    show "10 powi (decimal_Emax + 2 - 1) \<le> \<bar>?x\<bar>"
      unfolding x e P1 using Qpos by (simp add: abs_mult)
    show "\<bar>?x\<bar> < 10 powi (decimal_Emax + 2)"
      unfolding x P2 using Qpos by (simp add: abs_mult)
  qed
  have em: "max (position ?x - decimal_prec) decimal_Etiny = decimal_Emax - 26"
    unfolding pos by (simp add: decimal_prec_def decimal_Etiny_def decimal_Emax_def)
  have "?x / 10 powi (decimal_Emax - 26) = of_int (18 * 10 ^ 26)"
    unfolding x using Qpos by (simp add: Q_def)
  then have r: "round_half_even (?x / 10 powi (decimal_Emax - 26)) = 18 * 10 ^ 26"
    by (simp only: round_half_even_of_int)
  have y: "of_int (18 * 10 ^ 26) * (10::rat) powi (decimal_Emax - 26) = 18 * 10 ^ 26 * Q"
    by (simp add: Q_def)
  have over: "10 powi (decimal_Emax + 1) \<le> \<bar>18 * 10 ^ 26 * Q\<bar>"
    unfolding P1 using Qpos by (simp add: abs_mult)
  have "decimal_fix ?x = Inl DecimalOverflow"
    unfolding decimal_fix_def Let_def em r y using nz over by (simp only: if_False if_True)
  then have 2: "decimal_add (9 * 10 powi decimal_Emax) (9 * 10 powi decimal_Emax) = Inl DecimalOverflow"
    by (simp only: decimal_add_def)
  from 1 2 show ?thesis by (rule conjI)
qed

lemma zero_raw_discount_overflow:
  "accumulated_discounts persisted_huge (date tx_A_S) = Inl DecimalOverflow
   \<and> snd (execute_rule id limited_executor 0 [] tx_A_S persisted_huge) = Inl DecimalOverflow"
proof -
  let ?k = "initial_rule_params 0 [] tx_A_S persisted_huge"
  let ?m = "\<lparr>arg_names = [''price''], run = RuleDiscountFullPrice_calculate_discount\<rparr>"
  let ?cm = "\<lparr>arg_names = [''discount'', ''transaction'', ''transaction_repo''],
               run = BasicMonthlyDiscountSizeLimiter_correct 25\<rparr>"
  have v: "\<forall>t \<in> set persisted_huge. valid_date (date t)"
    by (simp add: persisted_huge_def valid_date_def monthrange_def mdays_def isleap_def)
  have ds: "present_discounts (filter (\<lambda>t. same_month (date tx_A_S) (date t)) persisted_huge)
              = [9 * 10 powi decimal_Emax, 9 * 10 powi decimal_Emax]"
    by (simp add: persisted_huge_def tx_A_S_def same_month_def)
  have a: "accumulated_discounts persisted_huge (date tx_A_S) = Inl DecimalOverflow"
    unfolding accumulated_discounts_month[OF valid_date_tx_A_S v] ds
    using huge_sum_overflows by (simp add: python_sum_def)
  have elig: "is_eligible id (exec_eligibility_rules limited_executor) ?k = Inr True"
    by (simp add: limited_executor_def is_eligible_def)
  have m: "calculate_discount_method (exec_size_rule limited_executor) = Some ?m"
    by (simp add: limited_executor_def full_price_method)
  have keys: "\<not> missing_keys ?m ?k"
    by (simp add: missing_keys_def kwargs_keys_def)
  have zero: "run ?m ?k = Inr 0"
    by (simp add: RuleDiscountFullPrice_calculate_discount_def initial_rule_params_def)
  have ex: "execute_rule id limited_executor 0 [] tx_A_S persisted_huge
              = correct_size limiter_25 ?k 0"
    using execute_rule_zero[OF elig m keys zero] by (simp add: limited_executor_def)
  have cm: "correct_method limiter_25 = Some ?cm" by (simp add: limiter_25_def no_methods_def)
  have mk: "\<not> missing_keys ?cm (?k\<lparr>rp_discount := Some 0\<rparr>)"
    by (simp add: missing_keys_def kwargs_keys_def)
  have "run ?cm (?k\<lparr>rp_discount := Some 0\<rparr>) = Inl DecimalOverflow"
    using limiter_zero[where k="?k\<lparr>rp_discount := Some 0\<rparr>" and limit=25] a
    by (simp add: initial_rule_params_def)
  with correct_size_result[OF cm mk] have "snd (correct_size limiter_25 ?k 0) = Inl DecimalOverflow"
    by simp
  with a ex show ?thesis by simp
qed

text \<open>
  The claim as stated, for every executor with a correction rule bound, fails: the
  executor does not stop at a zero raw discount when a correction rule is bound, and
  a correction rule that returns a positive amount for it makes that amount the
  discount.
\<close>

theorem zero_raw_discount_corrected_counterexample:
  "DiscountRuleExecutor_init 1 RuleDiscountFullPrice None (Some minimum_discount_rule)
     = Inr minimum_discount_executor
   \<and> is_eligible id (exec_eligibility_rules minimum_discount_executor)
       (initial_rule_params 0 [] tx_A_S []) = Inr True
   \<and> RuleDiscountFullPrice_calculate_discount (initial_rule_params 0 [] tx_A_S []) = Inr 0
   \<and> snd (execute_rule id minimum_discount_executor 0 [] tx_A_S []) = Inr (Some 1)"
proof -
  have 1: "DiscountRuleExecutor_init 1 RuleDiscountFullPrice None (Some minimum_discount_rule)
     = Inr minimum_discount_executor"
    by (simp add: DiscountRuleExecutor_init_def minimum_discount_executor_def
        minimum_discount_rule_def full_price_method no_methods_def)
  have 2: "is_eligible id (exec_eligibility_rules minimum_discount_executor)
       (initial_rule_params 0 [] tx_A_S []) = Inr True"
    by (simp add: minimum_discount_executor_def is_eligible_def)
  have 3: "RuleDiscountFullPrice_calculate_discount (initial_rule_params 0 [] tx_A_S []) = Inr 0"
    by (simp add: RuleDiscountFullPrice_calculate_discount_def initial_rule_params_def)
  let ?k = "initial_rule_params 0 [] tx_A_S []"
  let ?m = "\<lparr>arg_names = [''price''], run = RuleDiscountFullPrice_calculate_discount\<rparr>"
  have m: "calculate_discount_method (exec_size_rule minimum_discount_executor) = Some ?m"
    by (simp add: minimum_discount_executor_def full_price_method)
  have keys: "\<not> missing_keys ?m ?k"
    by (simp add: missing_keys_def kwargs_keys_def)
  have zero: "run ?m ?k = Inr 0" using 3 by simp
  have "execute_rule id minimum_discount_executor 0 [] tx_A_S []
          = correct_size minimum_discount_rule ?k 0"
    using execute_rule_zero[OF 2 m keys zero] by (simp add: minimum_discount_executor_def)
  moreover have "snd (correct_size minimum_discount_rule ?k 0) = Inr (Some 1)"
    by (simp add: correct_size_def minimum_discount_rule_def no_methods_def missing_keys_def
        kwargs_keys_def Let_def)
  ultimately have 4: "snd (execute_rule id minimum_discount_executor 0 [] tx_A_S []) = Inr (Some 1)"
    by simp
  from 1 2 3 4 show ?thesis by blast
qed


section \<open>The lock around the unit of work\<close>

lemma uow_body_events:
  "fst (uow_body c ac tx plans price rules repo) = [] \<or>
   (\<exists>pt. fst (uow_body c ac tx plans price rules repo) = [CallSave pt]
          \<and> isl (snd (uow_body c ac tx plans price rules repo))) \<or>
   (\<exists>pt. fst (uow_body c ac tx plans price rules repo) = [CallSave pt, CallReacquire]
          \<and> snd (uow_body c ac tx plans price rules repo) =
              (case reacquire_outcome c of Some e \<Rightarrow> Inl e
               | None \<Rightarrow> snd (uow_body c ac tx plans price rules repo)))"
  by (auto simp: uow_body_def Let_def split: sum.splits option.splits prod.splits)

lemma uow_body_reacquire:
  assumes "CallReacquire \<in> set (fst (uow_body c ac tx plans price rules repo))"
      and "reacquire_outcome c = Some e"
  shows "\<exists>pt. uow_body c ac tx plans price rules repo = ([CallSave pt, CallReacquire], Inl e)"
  using assms uow_body_events[of c ac tx plans price rules repo]
  by (cases "uow_body c ac tx plans price rules repo") auto

lemma process_transaction_events_reacquire:
  assumes "CallReacquire \<in> set (fst (process_transaction c ac tx plans price rules repo))"
  shows "acquire_outcome c = None \<and> begin_outcome c = None
       \<and> CallReacquire \<in> set (fst (uow_body c ac tx plans price rules repo))"
  using assms
  by (auto simp: process_transaction_def with_uow_def Let_def split: option.splits sum.splits if_splits)

lemma calculate_discount_single:
  "calculate_discount id tx_A_S [] 3 [full_price_executor 1] []
     = Inr (Some \<lparr>ad_discount_id = 1, ad_discount = 3\<rparr>)"
proof -
  have t: "exec_discount_tasks id [full_price_executor 1] 3 [] tx_A_S [] = [(1, Inr (Some 3))]"
    by (simp add: exec_discount_tasks_def full_price_run) (simp add: full_price_executor_def)
  show ?thesis
    by (simp add: calculate_discount_def t Let_def get_largest_discount_def sorted_reverse_def)
qed

lemma uow_body_single:
  "uow_body c id tx_A_S [] 3 [full_price_executor 1] [] =
     (let pt = \<lparr>date = Date 2021 2 1, package_size = ''S'', carrier = ''A'',
                 discount_id = Some 1, discount = Some 3\<rparr> in
      case save_outcome c of
        Some e \<Rightarrow> ([CallSave pt], Inl e)
      | None \<Rightarrow> (case reacquire_outcome c of
                   Some e \<Rightarrow> ([CallSave pt, CallReacquire], Inl e)
                 | None \<Rightarrow> ([CallSave pt, CallReacquire], Inr (Some 3))))"
  unfolding uow_body_def calculate_discount_single
  by (simp add: ProcessedTransaction_init_def tx_A_S_def Let_def)

text \<open>
  C4. In every run in which the lock's reacquire is reached (after the transaction
  was handed to the repository) and fails with the not-owned error, the unit of work
  is aborted and never committed, and the run ends in an error, not in a response:
  the calls are acquire, begin, save, reacquire, abort, release, in this order. The
  error that reaches the caller is the not-owned error itself whenever the abort and
  the release on the way out do not raise an error of their own (a not-owned error
  of that release is swallowed).
\<close>

theorem reacquire_not_owned_is_fatal:
  assumes called: "CallReacquire \<in> set (fst (process_transaction c as_completed tx plans price rules repo))"
      and fails: "reacquire_outcome c = Some LockNotOwnedException"
  shows "(\<exists>pt. fst (process_transaction c as_completed tx plans price rules repo)
              = [CallAcquire, CallBegin, CallSave pt, CallReacquire, CallAbort, CallRelease])
       \<and> CallCommit \<notin> set (fst (process_transaction c as_completed tx plans price rules repo))
       \<and> isl (snd (process_transaction c as_completed tx plans price rules repo))
       \<and> (abort_outcome c = None \<longrightarrow>
            release_outcome c = None \<or> release_outcome c = Some LockNotOwnedException \<longrightarrow>
            snd (process_transaction c as_completed tx plans price rules repo)
              = Inl LockNotOwnedException)"
proof -
  from process_transaction_events_reacquire[OF called]
  have acq: "acquire_outcome c = None" and beg: "begin_outcome c = None"
    and re: "CallReacquire \<in> set (fst (uow_body c as_completed tx plans price rules repo))"
    by auto
  from uow_body_reacquire[OF re fails] obtain pt where
    body: "uow_body c as_completed tx plans price rules repo
             = ([CallSave pt, CallReacquire], Inl LockNotOwnedException)" by blast
  have uow: "with_uow c (uow_body c as_completed tx plans price rules repo) =
      ([CallBegin, CallSave pt, CallReacquire, CallAbort],
       case abort_outcome c of Some e' \<Rightarrow> Inl e' | None \<Rightarrow> Inl LockNotOwnedException)"
    by (simp add: with_uow_def body beg)
  have ev: "fst (process_transaction c as_completed tx plans price rules repo)
              = [CallAcquire, CallBegin, CallSave pt, CallReacquire, CallAbort, CallRelease]"
    by (simp add: process_transaction_def acq uow Let_def split: option.splits)
  have res: "snd (process_transaction c as_completed tx plans price rules repo) =
      (case release_outcome c of
         None \<Rightarrow> (case abort_outcome c of Some e' \<Rightarrow> Inl e' | None \<Rightarrow> Inl LockNotOwnedException)
       | Some r \<Rightarrow> if r = LockNotOwnedException
                   then (case abort_outcome c of Some e' \<Rightarrow> Inl e' | None \<Rightarrow> Inl LockNotOwnedException)
                   else Inl r)"
    by (simp add: process_transaction_def acq uow Let_def split: option.splits)
  have 1: "\<exists>pt. fst (process_transaction c as_completed tx plans price rules repo)
              = [CallAcquire, CallBegin, CallSave pt, CallReacquire, CallAbort, CallRelease]"
    using ev by blast
  have 2: "CallCommit \<notin> set (fst (process_transaction c as_completed tx plans price rules repo))"
    using ev by simp
  have 3: "isl (snd (process_transaction c as_completed tx plans price rules repo))"
    using res by (simp split: option.splits)
  have 4: "abort_outcome c = None \<longrightarrow>
            release_outcome c = None \<or> release_outcome c = Some LockNotOwnedException \<longrightarrow>
            snd (process_transaction c as_completed tx plans price rules repo)
              = Inl LockNotOwnedException"
    using res by auto
  from 1 2 3 4 show ?thesis by blast
qed

theorem reacquire_not_owned_is_fatal_witness:
  "CallCommit \<notin> set (fst (process_transaction
       (all_return\<lparr>reacquire_outcome := Some LockNotOwnedException\<rparr>) id tx_A_S [] 3
       [full_price_executor 1] []))
   \<and> snd (process_transaction
       (all_return\<lparr>reacquire_outcome := Some LockNotOwnedException\<rparr>) id tx_A_S [] 3
       [full_price_executor 1] []) = Inl LockNotOwnedException"
proof -
  let ?c = "all_return\<lparr>reacquire_outcome := Some LockNotOwnedException\<rparr>"
  have called: "CallReacquire \<in> set (fst (process_transaction ?c id tx_A_S [] 3
                  [full_price_executor 1] []))"
    by (simp add: process_transaction_def with_uow_def uow_body_single all_return_def Let_def)
  have fails: "reacquire_outcome ?c = Some LockNotOwnedException" by simp
  have ab: "abort_outcome ?c = None" and rl: "release_outcome ?c = None"
    by (simp_all add: all_return_def)
  from reacquire_not_owned_is_fatal[OF called fails] ab rl show ?thesis by blast
qed





section \<open>Executors built from a list of definitions\<close>

lemma instantiate_full_price:
  "instantiate size_registry full_price_subrule = Inr RuleDiscountFullPrice"
  by (simp add: instantiate_def size_registry_def full_price_subrule_def)

lemma instantiate_attributes:
  "instantiate eligibility_registry \<lparr>name = ''rule_transaction_attributes'', params = kw\<rparr>
     = Inr (RuleTransactionAttributes kw)"
  by (simp add: instantiate_def eligibility_registry_def)

lemma init_with_rules:
  "DiscountRuleExecutor_init did RuleDiscountFullPrice
     (Some [RuleTransactionAttributes [(''package_size'', PStr ''M'')]]) None
   = Inr (only_M_executor\<lparr>exec_discount_id := did\<rparr>)"
  by (simp add: DiscountRuleExecutor_init_def only_M_executor_def RuleTransactionAttributes_def
      full_price_method no_methods_def)

text \<open>
  C2. The claim is that every executor binds its own definition's variants only. The
  loop does not do this: for the definitions 1 (an attribute rule for package size M,
  full-price size rule) and 2 (full-price size rule, no eligibility rules), the
  executor built for definition 2 carries the eligibility rules of definition 1. A
  transaction of package size S therefore gets no discount from it, where an executor
  without eligibility rules returns the full price.
\<close>

theorem get_rules_leaks_eligibility_rules:
  "get_rules eligibility_registry size_registry correction_reg leaking_rule_set
     = Inr [only_M_executor, only_M_executor\<lparr>exec_discount_id := 2\<rparr>]
   \<and> snd (execute_rule id (only_M_executor\<lparr>exec_discount_id := 2\<rparr>) 3 [] tx_A_S []) = Inr None
   \<and> snd (execute_rule id (full_price_executor 2) 3 [] tx_A_S []) = Inr (Some 3)"
proof -
  have 1: "get_rules eligibility_registry size_registry correction_reg leaking_rule_set
     = Inr [only_M_executor, only_M_executor\<lparr>exec_discount_id := 2\<rparr>]"
    by (simp add: get_rules_def leaking_rule_set_def instantiate_full_price
        instantiate_attributes init_with_rules)
       (simp add: only_M_executor_def)
  have "is_eligible id (exec_eligibility_rules (only_M_executor\<lparr>exec_discount_id := 2\<rparr>))
          (initial_rule_params 3 [] tx_A_S []) = Inr False"
    by (simp add: only_M_executor_def is_eligible_def RuleTransactionAttributes_def no_methods_def
        missing_keys_def kwargs_keys_def only_M_false)
  then have 2: "snd (execute_rule id (only_M_executor\<lparr>exec_discount_id := 2\<rparr>) 3 [] tx_A_S [])
                  = Inr None"
    by (simp add: execute_rule_def Let_def)
  have 3: "snd (execute_rule id (full_price_executor 2) 3 [] tx_A_S []) = Inr (Some 3)"
    by (simp add: full_price_run)
  from 1 2 3 show ?thesis by blast
qed

section \<open>Decimal places of a shipping plan's price\<close>

text \<open>
  C6. The claim is that a price is accepted only when all digits beyond the second
  fractional place are zero, and is then stored with two fractional digits. The
  price 1.23100 is accepted and stored as it is, since the formatter is not run on
  the field. The formatter would not reject it either: it inspects the last two
  digits of the coefficient, here 0 and 0, instead of the digits beyond the second
  place, and cuts the value to 1.23; and it rejects 1.230, whose only digit beyond
  the second place is zero, because the last two digits are 3 and 0.
\<close>

theorem price_decimal_places_not_enforced:
  "ShippingPlan_price price_1_23100 = Inr price_1_23100
   \<and> format_currency_decimal_places (Some price_1_23100)
       = Inr (Some \<lparr>dec_sign = 0, dec_digits = [1, 2, 3], dec_exponent = Exp (- 2)\<rparr>)
   \<and> format_currency_decimal_places (Some price_1_230) = Inl ValueError"
proof -
  have 1: "ShippingPlan_price price_1_23100 = Inr price_1_23100"
    by (simp add: ShippingPlan_price_def price_1_23100_def)
  have 2: "format_currency_decimal_places (Some price_1_23100)
       = Inr (Some \<lparr>dec_sign = 0, dec_digits = [1, 2, 3], dec_exponent = Exp (- 2)\<rparr>)"
    by (simp add: format_currency_decimal_places_def make_decimal_places_formatter_def
        CURRENCY_DECIMAL_PLACES_def price_1_23100_def last_digits_def quantize_round_down_def
        is_zero_def Let_def)
  have 3: "format_currency_decimal_places (Some price_1_230) = Inl ValueError"
    by (simp add: format_currency_decimal_places_def make_decimal_places_formatter_def
        CURRENCY_DECIMAL_PLACES_def price_1_230_def last_digits_def Let_def)
  from 1 2 3 show ?thesis by blast
qed


section \<open>The monthly limiter\<close>

lemma cents_0: "cents 0"
  by (simp add: cents_def)

lemma cents_sum_list: "\<forall>v \<in> set ds. cents v \<Longrightarrow> cents (sum_list ds)"
  by (induction ds) (auto simp: cents_0 cents_add)

lemma exact_amount:
  assumes "cents x" "\<bar>x\<bar> < 10 ^ 26"
  shows "decimal_fix x = Inr x"
  using assms by (intro representable_fix cents_representable)

lemma sum_from_exact:
  assumes "cents a" "0 \<le> a" "\<forall>d \<in> set ds. cents d \<and> 0 \<le> d" "a + sum_list ds < 10 ^ 26"
  shows "sum_from a ds = Inr (a + sum_list ds)"
  using assms
proof (induction ds arbitrary: a)
  case Nil
  then show ?case by simp
next
  case (Cons d ds)
  have nn: "0 \<le> sum_list ds" using Cons.prems(3) by (intro sum_list_nonneg) auto
  have d: "cents d" "0 \<le> d" using Cons.prems(3) by auto
  have "\<bar>a + d\<bar> < 10 ^ 26" using Cons.prems(2,4) d(2) nn by simp
  then have step: "decimal_add a d = Inr (a + d)"
    unfolding decimal_add_def using Cons.prems(1) d(1) by (intro exact_amount cents_add)
  have "sum_from (a + d) ds = Inr (a + d + sum_list ds)"
    using Cons.prems d by (intro Cons.IH cents_add) (auto simp: add.assoc)
  with step show ?case by (simp add: add.assoc)
qed

lemma present_discounts_set:
  "v \<in> set (present_discounts ts) \<Longrightarrow> \<exists>t \<in> set ts. discount t = Some v"
  by (induction ts) (auto split: option.splits)

lemma accumulated_discounts_exact:
  assumes "valid_date d" "\<forall>t \<in> set repo. valid_date (date t)"
      and "\<forall>t \<in> set repo. \<forall>v. discount t = Some v \<longrightarrow> cents v \<and> 0 \<le> v"
      and "accumulated_this_month repo d \<le> 10 ^ 24"
  shows "accumulated_discounts repo d = Inr (accumulated_this_month repo d)"
proof -
  let ?ds = "present_discounts (filter (\<lambda>t. same_month d (date t)) repo)"
  have c: "\<forall>v \<in> set ?ds. cents v \<and> 0 \<le> v"
    using assms(3) by (auto dest!: present_discounts_set)
  have b: "0 + sum_list ?ds < 10 ^ 26"
    using assms(4) by (simp add: accumulated_this_month_def)
  have "python_sum ?ds = Inr (0 + sum_list ?ds)"
    unfolding python_sum_def using cents_0 order_refl c b by (rule sum_from_exact)
  then show ?thesis
    unfolding accumulated_discounts_month[OF assms(1,2)]
    by (simp add: accumulated_this_month_def)
qed

text \<open>
  C7 (as amended). For every cap \<open>C > 0\<close> and every raw discount \<open>d\<close>, with
  \<open>accumulated\<close> the sum of the discounts persisted in the calendar month of the
  transaction's date (first through last day, both included): when the cap, the
  discount and the persisted discounts are amounts in whole cents, the persisted
  discounts are not negative, and the cap, the discount and the month's sum are at
  most \<open>10 ^ 24\<close> (so that no decimal operation rounds), the monthly limiter returns
  \<open>d\<close> unchanged when \<open>d + accumulated \<le> C\<close> and \<open>max(0, C - accumulated)\<close>
  otherwise; for every \<open>d \<ge> 0\<close>, the raw discounts the executor passes to a
  correction rule, this is \<open>min(d, max(0, C - accumulated))\<close>.
\<close>

theorem monthly_limiter_correct:
  assumes rule: "BasicMonthlyDiscountSizeLimiter C = Inr rule"
      and tx: "valid_date (date (rp_transaction k))"
      and repo: "\<forall>t \<in> set (rp_transaction_repo k). valid_date (date t)"
      and d: "rp_discount k = Some d"
      and amounts: "cents C" "cents d"
                   "\<forall>t \<in> set (rp_transaction_repo k). \<forall>v. discount t = Some v \<longrightarrow> cents v \<and> 0 \<le> v"
      and bounds: "C \<le> 10 ^ 24" "\<bar>d\<bar> \<le> 10 ^ 24"
                  "accumulated_this_month (rp_transaction_repo k) (date (rp_transaction k)) \<le> 10 ^ 24"
  shows "0 < C \<and> (\<exists>cm. correct_method rule = Some cm \<and> \<not> missing_keys cm k
         \<and> run cm k =
             Inr (Some (if d + accumulated_this_month (rp_transaction_repo k) (date (rp_transaction k)) \<le> C
                        then d
                        else max 0 (C - accumulated_this_month (rp_transaction_repo k) (date (rp_transaction k)))))
         \<and> (0 \<le> d \<or> accumulated_this_month (rp_transaction_repo k) (date (rp_transaction k)) \<le> C \<longrightarrow>
              run cm k =
                Inr (Some (min d (max 0 (C - accumulated_this_month (rp_transaction_repo k)
                                              (date (rp_transaction k))))))))"
proof -
  let ?acc = "accumulated_this_month (rp_transaction_repo k) (date (rp_transaction k))"
  let ?cm = "\<lparr>arg_names = [''discount'', ''transaction'', ''transaction_repo''],
               run = BasicMonthlyDiscountSizeLimiter_correct C\<rparr>"
  from rule have pos: "0 < C" and cm: "correct_method rule = Some ?cm"
    by (auto simp: BasicMonthlyDiscountSizeLimiter_def no_methods_def split: if_splits)
  have mk: "\<not> missing_keys ?cm k" using d by (simp add: missing_keys_def kwargs_keys_def)
  have acc: "accumulated_discounts (rp_transaction_repo k) (date (rp_transaction k)) = Inr ?acc"
    using tx repo amounts(3) bounds(3) by (rule accumulated_discounts_exact)
  have acc_cents: "cents ?acc"
    unfolding accumulated_this_month_def using amounts(3)
    by (intro cents_sum_list) (auto dest!: present_discounts_set)
  have acc_nn: "0 \<le> ?acc"
    unfolding accumulated_this_month_def using amounts(3)
    by (intro sum_list_nonneg) (auto dest!: present_discounts_set)
  have add: "decimal_add d ?acc = Inr (d + ?acc)"
    unfolding decimal_add_def using amounts(2) acc_cents bounds(2,3) acc_nn
    by (intro exact_amount cents_add) auto
  have sub: "decimal_sub C ?acc = Inr (C - ?acc)"
    unfolding decimal_sub_def using amounts(1) acc_cents bounds(1,3) acc_nn pos
    by (intro exact_amount cents_diff) auto
  have mx: "decimal_max (C - ?acc) 0 = Inr (max 0 (C - ?acc))"
  proof -
    have "cents (max (C - ?acc) 0)" using amounts(1) acc_cents by (simp add: max_def cents_0 cents_diff)
    moreover have "\<bar>max (C - ?acc) 0\<bar> < 10 ^ 26" using bounds(1) acc_nn by (simp add: max_def)
    ultimately show ?thesis unfolding decimal_max_def by (simp add: exact_amount max.commute)
  qed
  have run: "run ?cm k = Inr (Some (if d + ?acc \<le> C then d else max 0 (C - ?acc)))"
    using d acc add sub mx by (simp add: BasicMonthlyDiscountSizeLimiter_correct_def)
  have "(if d + ?acc \<le> C then d else max 0 (C - ?acc)) = min d (max 0 (C - ?acc))"
    if "0 \<le> d \<or> ?acc \<le> C"
    using that by (auto simp: min_def max_def)
  with run have "0 \<le> d \<or> ?acc \<le> C \<longrightarrow> run ?cm k = Inr (Some (min d (max 0 (C - ?acc))))"
    by simp
  with pos cm mk run show ?thesis by blast
qed

lemma valid_persisted_february: "\<forall>t \<in> set persisted_february. valid_date (date t)"
  by (simp add: persisted_february_def valid_date_def monthrange_def mdays_def isleap_def)

lemma accumulated_february:
  "accumulated_this_month persisted_february (date tx_A_S) = 24"
  by (simp add: accumulated_this_month_def persisted_february_def tx_A_S_def same_month_def)

lemma limiter_25_constructed: "BasicMonthlyDiscountSizeLimiter 25 = Inr limiter_25"
  by (simp add: BasicMonthlyDiscountSizeLimiter_def limiter_25_def)

theorem monthly_limiter_correct_witness:
  "BasicMonthlyDiscountSizeLimiter_correct 25
     ((initial_rule_params 3 [] tx_A_S persisted_february)\<lparr>rp_discount := Some 3\<rparr>)
   = Inr (Some 1)"
proof -
  let ?k = "(initial_rule_params 3 [] tx_A_S persisted_february)\<lparr>rp_discount := Some 3\<rparr>"
  have tx: "valid_date (date (rp_transaction ?k))"
    using valid_date_tx_A_S by (simp add: initial_rule_params_def)
  have repo: "\<forall>t \<in> set (rp_transaction_repo ?k). valid_date (date t)"
    using valid_persisted_february by (simp add: initial_rule_params_def)
  have d: "rp_discount ?k = Some 3" by simp
  have acc: "accumulated_this_month (rp_transaction_repo ?k) (date (rp_transaction ?k)) = 24"
    using accumulated_february by (simp add: initial_rule_params_def)
  have a1: "cents 25" and a2: "cents 3" by (simp_all add: cents_def)
  have a3: "\<forall>t \<in> set (rp_transaction_repo ?k). \<forall>v. discount t = Some v \<longrightarrow> cents v \<and> 0 \<le> v"
    by (simp add: initial_rule_params_def persisted_february_def cents_def)
  have b1: "(25::rat) \<le> 10 ^ 24" and b2: "\<bar>3::rat\<bar> \<le> 10 ^ 24" by simp_all
  have b3: "accumulated_this_month (rp_transaction_repo ?k) (date (rp_transaction ?k)) \<le> 10 ^ 24"
    unfolding acc by simp
  have cm: "correct_method limiter_25 =
      Some \<lparr>arg_names = [''discount'', ''transaction'', ''transaction_repo''],
            run = BasicMonthlyDiscountSizeLimiter_correct 25\<rparr>"
    by (simp add: limiter_25_def no_methods_def)
  from monthly_limiter_correct[OF limiter_25_constructed tx repo d a1 a2 a3 b1 b2 b3]
  show ?thesis unfolding acc cm by auto
qed

text \<open>
  The claim as stated, for every cap and every raw discount, fails where the decimal
  context rounds: with the cap \<open>10 ^ 28\<close>, one discount of \<open>10 ^ 28\<close> persisted in
  the month and the raw discount 0.01, the sum \<open>0.01 + 10 ^ 28\<close> has 31 digits and
  is rounded to \<open>10 ^ 28\<close>, which does not exceed the cap; the rule returns 0.01
  unchanged, where \<open>min(d, max(0, C - accumulated))\<close> is 0.
\<close>

lemma below_overflow:
  assumes "\<bar>x :: rat\<bar> < 10 ^ 30"
  shows "\<not> 10 powi (decimal_Emax + 1) \<le> \<bar>x\<bar>"
proof -
  have "(10::rat) powi 30 \<le> 10 powi (decimal_Emax + 1)"
    by (intro power_int_increasing) (simp_all add: decimal_Emax_def)
  then have e: "(10::rat) ^ 30 \<le> 10 powi (decimal_Emax + 1)" by simp
  from less_le_trans[OF assms e] show ?thesis by simp
qed

lemma representable_1e28: "representable (10 ^ 28)"
proof -
  have "(10::rat) ^ 28 = of_int 1 * 10 powi 28 \<and> \<bar>1::int\<bar> < 10 ^ 28 \<and> decimal_Etiny \<le> 28"
    by (simp add: decimal_Etiny_def)
  moreover have "\<not> 10 powi (decimal_Emax + 1) \<le> \<bar>(10::rat) ^ 28\<bar>"
    by (rule below_overflow) simp
  then have "\<bar>(10::rat) ^ 28\<bar> < 10 powi (decimal_Emax + 1)"
    by (simp only: not_le)
  ultimately show ?thesis unfolding representable_def by blast
qed

lemma rounded_sum_1e28: "decimal_add (1 / 100) (10 ^ 28) = Inr (10 ^ 28)"
proof -
  let ?x = "1 / 100 + (10::rat) ^ 28"
  have p: "position ?x = 29" by (rule position_eqI) simp_all
  have q: "max (position ?x - decimal_prec) decimal_Etiny = 1"
    unfolding p using Etiny_le by (simp add: decimal_prec_def)
  have r: "round_half_even (?x / 10 powi 1) = 10 ^ 27"
    by (rule round_half_even_eqI) simp_all
  have o: "\<not> 10 powi (decimal_Emax + 1) \<le> \<bar>of_int (10 ^ 27) * (10::rat) powi 1\<bar>"
    by (rule below_overflow) simp
  have "decimal_fix ?x = Inr (of_int (10 ^ 27) * 10 powi 1)"
    unfolding decimal_fix_def Let_def q r using o by simp
  then show ?thesis by (simp add: decimal_add_def)
qed

theorem monthly_limiter_rounding_counterexample:
  "accumulated_this_month persisted_1e28 (date tx_A_S) = 10 ^ 28
   \<and> accumulated_discounts persisted_1e28 (date tx_A_S) = Inr (10 ^ 28)
   \<and> BasicMonthlyDiscountSizeLimiter_correct (10 ^ 28)
       ((initial_rule_params (1 / 100) [] tx_A_S persisted_1e28)\<lparr>rp_discount := Some (1 / 100)\<rparr>)
     = Inr (Some (1 / 100))
   \<and> min (1 / 100) (max 0 (10 ^ 28 - accumulated_this_month persisted_1e28 (date tx_A_S)))
     = (0 :: rat)"
proof -
  let ?k = "(initial_rule_params (1 / 100) [] tx_A_S persisted_1e28)\<lparr>rp_discount := Some (1 / 100)\<rparr>"
  have 1: "accumulated_this_month persisted_1e28 (date tx_A_S) = 10 ^ 28"
    by (simp add: accumulated_this_month_def persisted_1e28_def tx_A_S_def same_month_def)
  have v: "\<forall>t \<in> set persisted_1e28. valid_date (date t)"
    by (simp add: persisted_1e28_def valid_date_def monthrange_def mdays_def isleap_def)
  have ds: "present_discounts (filter (\<lambda>t. same_month (date tx_A_S) (date t)) persisted_1e28)
              = [10 ^ 28]"
    by (simp add: persisted_1e28_def tx_A_S_def same_month_def)
  have "decimal_add 0 (10 ^ 28) = Inr (10 ^ 28)"
    using representable_fix[OF representable_1e28] by (simp add: decimal_add_def)
  then have 2: "accumulated_discounts persisted_1e28 (date tx_A_S) = Inr (10 ^ 28)"
    unfolding accumulated_discounts_month[OF valid_date_tx_A_S v] ds
    by (simp add: python_sum_def)
  have k: "rp_transaction ?k = tx_A_S" "rp_transaction_repo ?k = persisted_1e28"
          "rp_discount ?k = Some (1 / 100)"
    by (simp_all add: initial_rule_params_def)
  have 3: "BasicMonthlyDiscountSizeLimiter_correct (10 ^ 28) ?k = Inr (Some (1 / 100))"
    unfolding BasicMonthlyDiscountSizeLimiter_correct_def k 2
    using rounded_sum_1e28 by simp
  show ?thesis using 1 2 3 by simp
qed

section \<open>Every n-th transaction\<close>



















end
